theory Spec2Isabelle
  imports Main "HOL-Library.Sublist"
begin

text \<open>
  The response cache of \<^verbatim>\<open>src/cache.js\<close>: the Koa middleware \<^verbatim>\<open>cache(ctx, next)\<close> that
  \<^verbatim>\<open>cacheMiddleware({ kev, ttl })\<close> returns.  What it computes from a request (cache
  directives, cache key), how it captures a response, and how concurrent requests
  share the registries of pending origin calls and pending refreshes are embedded
  below, followed by the properties proved of them.  Line numbers are those of
  \<^verbatim>\<open>src/cache.js\<close>.
\<close>

section \<open>Strings, regular-expression literals and number rendering\<close>

text \<open>
  The middleware inspects request headers
  with \<^verbatim>\<open>String.prototype.match\<close> on regular expressions that are plain literals
  (\<^verbatim>\<open>/no-cache/\<close>, \<^verbatim>\<open>/server/\<close>, \<^verbatim>\<open>/br/\<close>, ...): such a match succeeds exactly when the
  literal occurs somewhere in the string.
\<close>

fun matches :: "string \<Rightarrow> string \<Rightarrow> bool" where
  "matches lit [] = (lit = [])"
| "matches lit (c # cs) = (prefix lit (c # cs) \<or> matches lit cs)"

definition is_digit :: "char \<Rightarrow> bool" where
  "is_digit c = (c \<in> set ''0123456789'')"

text \<open>
  \<^verbatim>\<open>cc.match(/max-age=(\d+)/)\<close>: the leftmost position where \<^verbatim>\<open>max-age=\<close> is followed
  by at least one digit; the capture group is the longest run of digits there.
\<close>

fun max_age_match :: "string \<Rightarrow> string option" where
  "max_age_match [] = None"
| "max_age_match (c # cs) =
     (if prefix ''max-age='' (c # cs) \<and> takeWhile is_digit (drop 8 (c # cs)) \<noteq> []
      then Some (takeWhile is_digit (drop 8 (c # cs)))
      else max_age_match cs)"

definition digit_val :: "char \<Rightarrow> nat" where
  "digit_val c = of_char c - 48"

text \<open>\<^verbatim>\<open>parseInt\<close> on a string of decimal digits.\<close>

definition parseInt :: "string \<Rightarrow> nat" where
  "parseInt ds = foldl (\<lambda>n c. 10 * n + digit_val c) 0 ds"

text \<open>\<^verbatim>\<open>Number.prototype.toString\<close> on an integer.\<close>

fun digits :: "nat \<Rightarrow> string" where
  "digits n = (if n < 10 then [''0123456789'' ! n]
               else digits (n div 10) @ [''0123456789'' ! (n mod 10)])"

declare digits.simps [simp del]

definition toString :: "int \<Rightarrow> string" where
  "toString i = (if i < 0 then CHR ''-'' # digits (nat (- i)) else digits (nat i))"

text \<open>\<^verbatim>\<open>[scope, `max-age=${maxage}`].filter(Boolean).join(', ')\<close>\<close>

definition cache_control_value :: "string \<Rightarrow> int \<Rightarrow> string" where
  "cache_control_value scope maxage =
     (if scope = [] then ''max-age='' @ toString maxage
      else scope @ '', '' @ ''max-age='' @ toString maxage)"

section \<open>The request as the middleware reads it\<close>

text \<open>
  \<^verbatim>\<open>GetDomain\<close>, \<^verbatim>\<open>GetLocale\<close> and \<^verbatim>\<open>GetUser\<close> live in other modules; the middleware
  consumes their results, which are therefore fields of the request here.  A missing
  header reads as the empty string (\<^verbatim>\<open>ctx.get(..) || ''\<close>).  The parsed query is the
  list of the own properties of \<^verbatim>\<open>ctx.query\<close>, in insertion order.
\<close>

record domain =
  prefix_d :: string
  numericFormat :: string

record locale_t =
  tag :: string

record request =
  "method" :: string
  path :: string
  query :: "(string \<times> string) list"
  cache_control :: string
  authorization :: string
  accept_encoding :: string
  user_pro :: bool
  domain_of :: "domain option"
  locale_of :: "locale_t option"

subsection \<open>CacheControlPolicy (lines 22-32)\<close>

record cache_opts =
  noCache :: bool
  noStore :: bool
  maxAgeSeconds :: "nat option"

definition shouldRead :: "string \<Rightarrow> bool" where
  "shouldRead cc = (\<not> matches ''no-cache'' cc \<or> \<not> matches ''server'' cc)"

definition shouldWrite :: "string \<Rightarrow> bool" where
  "shouldWrite cc = (\<not> matches ''no-store'' cc \<or> \<not> matches ''server'' cc)"

definition derive_opts :: "string \<Rightarrow> cache_opts" where
  "derive_opts cc =
     \<lparr> noCache = \<not> shouldRead cc,
       noStore = \<not> shouldWrite cc,
       maxAgeSeconds =
         (case max_age_match cc of
            Some ds \<Rightarrow> if matches ''server'' cc then Some (parseInt ds) else None
          | None \<Rightarrow> None) \<rparr>"

definition scope_of :: "request \<Rightarrow> string" where
  "scope_of q = (if authorization q \<noteq> [] then ''private'' else [])"

text \<open>\<^verbatim>\<open>if (!opts.maxAgeSeconds)\<close>: the property is falsy when it is absent and when it is 0.\<close>

definition maxAge_truthy :: "cache_opts \<Rightarrow> bool" where
  "maxAge_truthy o' = (case maxAgeSeconds o' of None \<Rightarrow> False | Some n \<Rightarrow> n \<noteq> 0)"

subsection \<open>CacheKeyBuilder (lines 41-60)\<close>

text \<open>
  \<^verbatim>\<open>qs.stringify\<close> of \<^verbatim>\<open>node:querystring\<close> on an object with string values: the pairs
  \<^verbatim>\<open>key=value\<close> joined by \<^verbatim>\<open>&\<close>, keys and values percent-escaped byte by byte except
  for the characters \<^verbatim>\<open>A-Z a-z 0-9 - _ . ! ~ * ' ( )\<close>.
\<close>

definition unreserved :: "char \<Rightarrow> bool" where
  "unreserved c =
     (c \<in> set ''ABCDEFGHIJKLMNOPQRSTUVWXYZabcdefghijklmnopqrstuvwxyz0123456789-_.!~*()''
      \<or> c = CHR 0x27)"

definition hex_digit :: "nat \<Rightarrow> char" where
  "hex_digit n = ''0123456789ABCDEF'' ! n"

definition qs_escape_char :: "char \<Rightarrow> string" where
  "qs_escape_char c =
     (if unreserved c then [c]
      else [CHR ''%'', hex_digit (of_char c div 16), hex_digit (of_char c mod 16)])"

definition qs_escape :: "string \<Rightarrow> string" where
  "qs_escape s = concat (map qs_escape_char s)"

fun join :: "string \<Rightarrow> string list \<Rightarrow> string" where
  "join sep [] = []"
| "join sep [x] = x"
| "join sep (x # y # ys) = x @ sep @ join sep (y # ys)"

definition qs_stringify :: "(string \<times> string) list \<Rightarrow> string" where
  "qs_stringify q = join ''&'' (map (\<lambda>(k, v). qs_escape k @ ''='' @ qs_escape v) q)"

text \<open>\<^verbatim>\<open>const query = { ...ctx.query }; delete query.lang_ID;\<close>\<close>

definition strip_lang :: "(string \<times> string) list \<Rightarrow> (string \<times> string) list" where
  "strip_lang q = filter (\<lambda>(k, v). k \<noteq> ''lang_ID'') q"

text \<open>\<^verbatim>\<open>x || 'none'\<close> on an optional string: absent and empty both give \<^verbatim>\<open>none\<close>.\<close>

definition or_none :: "string option \<Rightarrow> string" where
  "or_none x = (case x of None \<Rightarrow> ''none'' | Some s \<Rightarrow> if s = [] then ''none'' else s)"

definition isPro_tag :: "request \<Rightarrow> string" where
  "isPro_tag q = (if user_pro q then ''true'' else ''false'')"

definition domain_tag :: "request \<Rightarrow> string" where
  "domain_tag q = or_none (map_option prefix_d (domain_of q))"

definition lang_tag :: "request \<Rightarrow> string" where
  "lang_tag q = or_none (map_option tag (locale_of q))"

definition format_tag :: "request \<Rightarrow> string" where
  "format_tag q = or_none (map_option numericFormat (domain_of q))"

definition encoding_tag :: "request \<Rightarrow> string" where
  "encoding_tag q =
     (if matches ''br'' (accept_encoding q) then ''br''
      else if matches ''gzip'' (accept_encoding q) then ''gzip''
      else if matches ''deflate'' (accept_encoding q) then ''deflate''
      else ''identity'')"

definition cachekeys :: "request \<Rightarrow> (string \<times> string) list" where
  "cachekeys q =
     [(''isPro'', isPro_tag q), (''domain'', domain_tag q), (''lang'', lang_tag q),
      (''format'', format_tag q), (''encoding'', encoding_tag q)]"

definition cache_key :: "request \<Rightarrow> string" where
  "cache_key q =
     method q @ '' '' @ path q @ ''?'' @ qs_stringify (strip_lang (query q)) @ '' ''
       @ join '' '' (map (\<lambda>(k, v). k @ ''='' @ v) (cachekeys q))"

section \<open>ResponseCapture (lines 189-250)\<close>

text \<open>
  The response object \<^verbatim>\<open>ctx.res\<close>.  For a client request it is the real
  \<^verbatim>\<open>http.ServerResponse\<close>; during a background refresh it is \<^verbatim>\<open>resProxy\<close> (lines 106-161),
  whose \<^verbatim>\<open>get\<close> trap answers \<^verbatim>\<open>recache\<close> with true, \<^verbatim>\<open>writable\<close> with true and
  \<^verbatim>\<open>headersSent\<close> with false, keeps \<^verbatim>\<open>statusCode\<close> and \<^verbatim>\<open>statusMessage\<close> in local
  variables and the headers in its own object \<^verbatim>\<open>newHeaders\<close>.  Both are one record:
  \<open>headers\<close> is the header table of the real response or \<^verbatim>\<open>newHeaders\<close>, keyed by
  lower-cased name, and \<open>wire\<close> lists the calls that reached the original
  \<^verbatim>\<open>writeHead\<close>, \<^verbatim>\<open>write\<close> and \<^verbatim>\<open>end\<close> of the real response, in the order in which
  they reach the connection (the header that a \<^verbatim>\<open>write\<close> sends first comes before its
  chunk).
\<close>

datatype hdrs = Obj "(string \<times> string option) list" | Arr "string list"

datatype arg = Undefined | Str string | Headers hdrs

datatype wire_call =
    W_writeHead int "string option" hdrs
  | W_write string
  | W_end "string option"

record response =
  recache :: bool
  statusCode :: int
  statusMessage :: string
  headers :: "string \<rightharpoonup> string"
  writable :: bool
  wire :: "wire_call list"

record capture =
  finalStatus :: int
  finalStatusMessage :: string
  contentType :: string
  contentLength :: string
  contentEncoding :: string
  chunks :: "string list"

definition lower_char :: "char \<Rightarrow> char" where
  "lower_char c =
     (if (65::nat) \<le> of_char c \<and> of_char c \<le> (90::nat) then char_of (of_char c + (32::nat))
      else c)"

definition toLowerCase :: "string \<Rightarrow> string" where
  "toLowerCase s = map lower_char s"

text \<open>\<^verbatim>\<open>this.writable\<close> and \<^verbatim>\<open>headersSent\<close> as the receiver reports them.\<close>

definition this_writable :: "response \<Rightarrow> bool" where
  "this_writable r = (recache r \<or> writable r)"

definition headersSent :: "response \<Rightarrow> bool" where
  "headersSent r = (\<not> recache r \<and> wire r \<noteq> [])"

definition getHeader :: "response \<Rightarrow> string \<Rightarrow> string option" where
  "getHeader r name = headers r (toLowerCase name)"

text \<open>
  \<^verbatim>\<open>setHeader\<close>; the real response refuses it once the headers are on the wire, and
  Koa's \<^verbatim>\<open>ctx.set\<close> returns early then.
\<close>

definition setHeader :: "string \<Rightarrow> string \<Rightarrow> response \<Rightarrow> response" where
  "setHeader name v r =
     (if headersSent r then r else r\<lparr>headers := (headers r)(toLowerCase name \<mapsto> v)\<rparr>)"

text \<open>Lines 206-211: the array form, consumed pairwise with \<^verbatim>\<open>shift\<close>.\<close>

fun arr_headers :: "string list \<Rightarrow> (string \<rightharpoonup> string) \<Rightarrow> (string \<rightharpoonup> string)" where
  "arr_headers [] m = m"
| "arr_headers [k] m = (if k \<noteq> [] then m(k \<mapsto> []) else m)"
| "arr_headers (k # v # rest) m = arr_headers rest (if k \<noteq> [] then m(k \<mapsto> v) else m)"

text \<open>Lines 214-216: the object form; a null or undefined value is stored as the empty string.\<close>

fun obj_headers ::
  "(string \<times> string option) list \<Rightarrow> (string \<rightharpoonup> string) \<Rightarrow> (string \<rightharpoonup> string)" where
  "obj_headers [] m = m"
| "obj_headers ((k, v) # rest) m =
     obj_headers rest (m(k \<mapsto> (case v of None \<Rightarrow> [] | Some x \<Rightarrow> x)))"

text \<open>\<^verbatim>\<open>if (setHeaders[name]) variable = setHeaders[name].toString()\<close>\<close>

definition truthy_or :: "string option \<Rightarrow> string \<Rightarrow> string" where
  "truthy_or v old = (case v of None \<Rightarrow> old | Some x \<Rightarrow> if x = [] then old else x)"

text \<open>
  \<^verbatim>\<open>http.STATUS_CODES\<close> of Node, which \<^verbatim>\<open>writeHead\<close> consults for the reason phrase.
\<close>

definition status_codes :: "(int \<times> string) list" where
  "status_codes =
     [(100, ''Continue''), (101, ''Switching Protocols''), (102, ''Processing''),
      (103, ''Early Hints''), (200, ''OK''), (201, ''Created''), (202, ''Accepted''),
      (203, ''Non-Authoritative Information''), (204, ''No Content''),
      (205, ''Reset Content''), (206, ''Partial Content''), (207, ''Multi-Status''),
      (208, ''Already Reported''), (226, ''IM Used''), (300, ''Multiple Choices''),
      (301, ''Moved Permanently''), (302, ''Found''), (303, ''See Other''),
      (304, ''Not Modified''), (305, ''Use Proxy''), (307, ''Temporary Redirect''),
      (308, ''Permanent Redirect''), (400, ''Bad Request''), (401, ''Unauthorized''),
      (402, ''Payment Required''), (403, ''Forbidden''), (404, ''Not Found''),
      (405, ''Method Not Allowed''), (406, ''Not Acceptable''),
      (407, ''Proxy Authentication Required''), (408, ''Request Timeout''),
      (409, ''Conflict''), (410, ''Gone''), (411, ''Length Required''),
      (412, ''Precondition Failed''), (413, ''Payload Too Large''), (414, ''URI Too Long''),
      (415, ''Unsupported Media Type''), (416, ''Range Not Satisfiable''),
      (417, ''Expectation Failed''), (418, ''I'' @ [CHR 0x27] @ ''m a Teapot''),
      (421, ''Misdirected Request''), (422, ''Unprocessable Entity''), (423, ''Locked''),
      (424, ''Failed Dependency''), (425, ''Too Early''), (426, ''Upgrade Required''),
      (428, ''Precondition Required''), (429, ''Too Many Requests''),
      (431, ''Request Header Fields Too Large''), (451, ''Unavailable For Legal Reasons''),
      (500, ''Internal Server Error''), (501, ''Not Implemented''), (502, ''Bad Gateway''),
      (503, ''Service Unavailable''), (504, ''Gateway Timeout''),
      (505, ''HTTP Version Not Supported''), (506, ''Variant Also Negotiates''),
      (507, ''Insufficient Storage''), (508, ''Loop Detected''),
      (509, ''Bandwidth Limit Exceeded''), (510, ''Not Extended''),
      (511, ''Network Authentication Required'')]"

definition STATUS_CODES :: "int \<Rightarrow> string" where
  "STATUS_CODES st = (case map_of status_codes st of None \<Rightarrow> ''unknown'' | Some p \<Rightarrow> p)"

text \<open>
  \<^verbatim>\<open>_writeHead\<close>, the \<^verbatim>\<open>writeHead\<close> of Node on the real response.  While no header has been
  sent it stores the status and the reason phrase in \<^verbatim>\<open>statusCode\<close> and \<^verbatim>\<open>statusMessage\<close>
  (a phrase that is not given is the one already set or else that of the table) and
  renders the header.  Once a header has been sent it throws \<^verbatim>\<open>ERR_HTTP_HEADERS_SENT\<close>
  into its caller and changes nothing.
\<close>

definition original_writeHead :: "int \<Rightarrow> string option \<Rightarrow> hdrs \<Rightarrow> response \<Rightarrow> response" where
  "original_writeHead st msg h r =
     (if wire r = []
      then r\<lparr>statusCode := st,
             statusMessage := (case msg of Some m \<Rightarrow> m
                               | None \<Rightarrow> if statusMessage r \<noteq> [] then statusMessage r
                                         else STATUS_CODES st),
             wire := [W_writeHead st msg h]\<rparr>
      else r)"

text \<open>
  The patched \<^verbatim>\<open>writeHead\<close> (lines 195-227), with the statements in the order of the
  source (\<open>st\<close>, \<open>msg\<close>, \<open>hs\<close> are its parameters \<^verbatim>\<open>status\<close>, \<^verbatim>\<open>statusMessage\<close>,
  \<^verbatim>\<open>headers\<close>): when the second argument is not a string, line 200 clears it and
  line 201 then assigns the cleared value to \<^verbatim>\<open>headers\<close>.  \<^verbatim>\<open>this.getHeaders()\<close> is a copy for the
  real response and the object \<^verbatim>\<open>newHeaders\<close> itself for the proxy, so the assignments
  of lines 210 and 215 reach the header table only for the proxy.  The array form is
  empty after the loop of line 206 when it is passed on.
\<close>

definition patched_writeHead ::
  "int \<Rightarrow> arg \<Rightarrow> hdrs option \<Rightarrow> capture \<times> response \<Rightarrow> capture \<times> response" where
  "patched_writeHead st msg hs cr =
     (let c = fst cr; r = snd cr;
          c1 = c\<lparr>finalStatus := st\<rparr>;
          c2 = (case msg of Str m \<Rightarrow> c1\<lparr>finalStatusMessage := m\<rparr> | _ \<Rightarrow> c1);
          msg' = (case msg of Str m \<Rightarrow> Some m | _ \<Rightarrow> None);
          hs1 = (case msg of Str m \<Rightarrow> hs | _ \<Rightarrow> None);
          hs2 = (case hs1 of None \<Rightarrow> Obj [] | Some h \<Rightarrow> h);
          setHeaders = (case hs2 of Arr xs \<Rightarrow> arr_headers xs (headers r)
                                  | Obj kvs \<Rightarrow> obj_headers kvs (headers r));
          hs3 = (case hs2 of Arr xs \<Rightarrow> Arr [] | Obj kvs \<Rightarrow> Obj kvs);
          c3 = c2\<lparr>contentType := truthy_or (setHeaders ''content-type'') (contentType c2),
                  contentLength := truthy_or (setHeaders ''content-length'') (contentLength c2),
                  contentEncoding :=
                    truthy_or (setHeaders ''content-encoding'') (contentEncoding c2)\<rparr>;
          r1 = (if recache r then r\<lparr>headers := setHeaders\<rparr> else r)
      in if \<not> this_writable r \<or> recache r then (c3, r1)
         else (c3, original_writeHead st msg' hs3 r1))"

text \<open>
  \<^verbatim>\<open>_write\<close>, the \<^verbatim>\<open>write\<close> of Node on the real response.  When no header has been sent
  yet it first sends the implicit one with \<^verbatim>\<open>this.writeHead(this.statusCode)\<close>, and
  \<^verbatim>\<open>this.writeHead\<close> is the patched function by then: the first chunk written fixes
  \<^verbatim>\<open>finalStatus\<close> at the status code of that moment.
\<close>

definition original_write :: "string \<Rightarrow> capture \<times> response \<Rightarrow> capture \<times> response" where
  "original_write chunk cr =
     (let cr1 = (if wire (snd cr) = []
                 then patched_writeHead (statusCode (snd cr)) Undefined None cr else cr)
      in (fst cr1, (snd cr1)\<lparr>wire := wire (snd cr1) @ [W_write chunk]\<rparr>))"

text \<open>The patched \<^verbatim>\<open>write\<close> (lines 230-235).\<close>

definition patched_write :: "string \<Rightarrow> capture \<times> response \<Rightarrow> capture \<times> response" where
  "patched_write chunk cr =
     (let c = fst cr; r = snd cr;
          c1 = c\<lparr>chunks := chunks c @ [chunk]\<rparr>
      in if \<not> this_writable r \<or> recache r then (c1, r)
         else original_write chunk (c1, r))"

text \<open>
  \<^verbatim>\<open>_end\<close>, the \<^verbatim>\<open>end\<close> of Node on the real response.  It sends the implicit header as
  \<^verbatim>\<open>_write\<close> does when none was sent.  That call goes through the patched \<^verbatim>\<open>writeHead\<close>
  too, but after lines 241-246: \<^verbatim>\<open>onFinish\<close> has read the captured values by then, for the
  only time, and on a response that has sent nothing the patched \<^verbatim>\<open>writeHead\<close> assigns
  the values that lines 241-245 have just captured (lemmas \<open>end_header_keeps_capture\<close>
  and \<open>nothing_sent_nothing_captured\<close> below).  So only its effect on the response is
  kept.
\<close>

definition original_end :: "string option \<Rightarrow> response \<Rightarrow> response" where
  "original_end data r =
     (let r1 = (if wire r = [] then original_writeHead (statusCode r) None (Obj []) r else r)
      in r1\<lparr>wire := wire r1 @ [W_end data]\<rparr>)"

text \<open>
  The patched \<^verbatim>\<open>end\<close> (lines 238-250), without line 246: emitting \<^verbatim>\<open>response\<close> touches
  neither the captured values nor the response, and is a step of the request below.
\<close>

definition patched_end :: "string option \<Rightarrow> capture \<times> response \<Rightarrow> capture \<times> response" where
  "patched_end data cr =
     (let c = fst cr; r = snd cr;
          c1 = (case data of None \<Rightarrow> c | Some d \<Rightarrow> c\<lparr>chunks := chunks c @ [d]\<rparr>);
          c2 = c1\<lparr>finalStatus := (if finalStatus c1 \<noteq> 0 then finalStatus c1 else statusCode r),
                  finalStatusMessage :=
                    (if finalStatusMessage c1 \<noteq> [] then finalStatusMessage c1
                     else statusMessage r),
                  contentType :=
                    (if contentType c1 \<noteq> [] then contentType c1
                     else truthy_or (getHeader r ''content-type'') []),
                  contentLength :=
                    (if contentLength c1 \<noteq> [] then contentLength c1
                     else truthy_or (getHeader r ''content-length'') []),
                  contentEncoding :=
                    (if contentEncoding c1 \<noteq> [] then contentEncoding c1
                     else truthy_or (getHeader r ''content-encoding'') [])\<rparr>
      in if \<not> this_writable r \<or> recache r then (c2, r)
         else (c2, original_end data r))"

section \<open>Cache entries\<close>

record entry_head =
  iat :: int
  exp :: int
  status :: int
  message :: string
  type_h :: string
  length_h :: string
  encoding :: string

record cache_entry =
  head :: entry_head
  body :: string

text \<open>
  Lines 73-81 of \<^verbatim>\<open>tryRespondWithCache\<close>: the pair \<^verbatim>\<open>{ rtl, age }\<close> it returns on a hit.
  \<open>now\<close> is \<^verbatim>\<open>Date.now()\<close> in milliseconds; \<^verbatim>\<open>head.iat && head.exp\<close> is false when
  either is 0.
\<close>

definition hit_times :: "int \<Rightarrow> entry_head \<Rightarrow> int \<times> int" where
  "hit_times now h =
     (if iat h \<noteq> 0 \<and> exp h \<noteq> 0
      then (let age = now div 1000 - iat h; maxage = exp h - iat h; rtl = maxage - age
            in (rtl, age))
      else (0, 0))"

definition hit_headers :: "string \<Rightarrow> string \<Rightarrow> int \<Rightarrow> entry_head \<Rightarrow> (string \<times> string option) list" where
  "hit_headers sc k now h =
     [(''content-type'', Some (type_h h)), (''content-length'', Some (length_h h)),
      (''content-encoding'', Some (encoding h)), (''x-cache'', Some ''hit''),
      (''x-cache-key'', Some k)]
     @ (if iat h \<noteq> 0 \<and> exp h \<noteq> 0
        then [(''age'', Some (toString (now div 1000 - iat h))),
              (''cache-control'', Some (cache_control_value sc (exp h - iat h)))]
        else [])"

text \<open>
  Lines 82-83 on a real response that has sent no header.  On this path the methods
  of \<^verbatim>\<open>ctx.res\<close> are not patched: \<^verbatim>\<open>writeHead\<close> and \<^verbatim>\<open>end\<close> are those of Node.  (Otherwise
  line 82 does not return, see \<open>cache_got\<close>.)
\<close>

definition respond_hit :: "string \<Rightarrow> string \<Rightarrow> int \<Rightarrow> cache_entry \<Rightarrow> response \<Rightarrow> response" where
  "respond_hit sc k now e r =
     (let h = head e;
          r1 = original_writeHead (status h) (if message h = [] then None else Some (message h))
                 (Obj (hit_headers sc k now h)) r
      in r1\<lparr>wire := wire r1 @ [W_end (Some (body e))]\<rparr>)"

text \<open>Line 95; \<^verbatim>\<open>ms('15m') / 1000\<close> is 900.\<close>

definition recacheable :: "int \<times> int \<Rightarrow> bool" where
  "recacheable ended = (fst ended < snd ended \<or> snd ended > 900)"

section \<open>The middleware as a machine over the event loop\<close>

text \<open>
  \<^verbatim>\<open>cache(ctx, next)\<close> is an \<^verbatim>\<open>async\<close> function: it runs without interruption from one
  \<^verbatim>\<open>await\<close> to the next, and between two such stretches any other request may run.
  A request is therefore a record with a program counter naming the \<^verbatim>\<open>await\<close> it is
  suspended at, and an event runs one request from there to its next suspension.
  The registries \<^verbatim>\<open>PendingRequest\<close> and \<^verbatim>\<open>PendingRecache\<close> (lines 12-13) are shared by
  all requests.  A promise stored in \<^verbatim>\<open>PendingRequest\<close> is named by the request that
  created it, a recache task by the request whose hit scheduled it.
\<close>

type_synonym key = string
type_synonym rid = nat

datatype pc =
    Bypass
  | AwaitPending rid
  | AwaitGet bool
  | Running
  | Returned
  | Threw string
  | Served
  | Failed string

record req =
  rq :: request
  key :: key
  opts :: cache_opts
  scope :: string
  pc :: pc
  res :: response
  cap :: capture
  age :: int
  maxage :: int
  responded :: bool
  armed :: bool
  registered :: bool
  resolved :: bool
  setting :: bool

text \<open>
  \<open>Bypass\<close>: not a \<^verbatim>\<open>GET\<close>, handed to \<^verbatim>\<open>next\<close> (line 21).  \<open>AwaitPending w\<close>: suspended at line
  87 on the promise that request \<open>w\<close> registered.  \<open>AwaitGet waited\<close>: suspended at line 62
  on the cache read, after such a wait or not.  \<open>Running\<close>: suspended at line 281 on the
  downstream handler.  \<open>Returned\<close>, \<open>Threw e\<close>: \<^verbatim>\<open>cache\<close> has returned, or has rejected
  with \<open>e\<close>, after line 281.  \<open>Served\<close>: returned after a hit.  \<open>Failed e\<close>: rejected with
  \<open>e\<close> at line 82.
\<close>

datatype phase = AwaitClose | Replaying

record task =
  t_key :: key
  t_age :: int
  t_phase :: phase

datatype console_line =
    RecacheError string
  | Recached key
  | RecacheFailed key int

record state =
  ttlsec :: int
  clock :: int
  PendingRequest :: "key \<rightharpoonup> rid"
  PendingRecache :: "key \<rightharpoonup> rid"
  store :: "key \<rightharpoonup> cache_entry \<times> int"
  reqs :: "rid \<rightharpoonup> req"
  nreq :: nat
  tasks :: "rid \<rightharpoonup> task"
  console :: "console_line list"

text \<open>
  \<open>ttlsec\<close> is the configured ttl in seconds (line 37: \<^verbatim>\<open>ms(ttl) / 1000\<close> when it is given
  as a string) and \<open>clock\<close> is \<^verbatim>\<open>Date.now()\<close>, in milliseconds.
\<close>

definition init :: "int \<Rightarrow> state" where
  "init ttl =
     \<lparr> ttlsec = ttl, clock = 0, PendingRequest = Map.empty, PendingRecache = Map.empty,
       store = Map.empty, reqs = Map.empty, nreq = 0, tasks = Map.empty, console = [] \<rparr>"

definition empty_capture :: capture where
  "empty_capture =
     \<lparr> finalStatus = 0, finalStatusMessage = [], contentType = [], contentLength = [],
       contentEncoding = [], chunks = [] \<rparr>"

text \<open>
  A response as Koa hands it to the middleware chain (status 404, nothing written);
  \<open>shadow\<close> tells whether it is the proxy of a background refresh.
\<close>

definition fresh_response :: "bool \<Rightarrow> response" where
  "fresh_response shadow =
     \<lparr> recache = shadow, statusCode = 404, statusMessage = [], headers = Map.empty,
       writable = True, wire = [] \<rparr>"

text \<open>
  Modelled from the spec: the cache store behind \<^verbatim>\<open>_cache\<close>.  Its adapters
  (\<^verbatim>\<open>KevAdapter\<close>, \<^verbatim>\<open>MissOnErrorCache\<close>, \<^verbatim>\<open>CacheInstrumenter\<close>) are not in \<^verbatim>\<open>src/\<close>.  The spec
  gives it \<^verbatim>\<open>get(key) -> CacheEntry | absent\<close> and \<^verbatim>\<open>set(key, entry, {ttlSeconds})\<close>, last
  write wins, with expiry left to the store and a failed read treated as a miss.  The
  adapters are made from the options of the request (line 33), and the spec has the
  directives disable reads (\<^verbatim>\<open>noCache\<close>) and writes (\<^verbatim>\<open>noStore\<close>): a request with
  \<^verbatim>\<open>no-store\<close> and \<^verbatim>\<open>server\<close> never results in a stored entry.  So \<open>store_set\<close> replaces
  the entry of the key unless \<^verbatim>\<open>noStore\<close> is set, and \<open>store_get\<close> answers with the
  entry last written unless \<^verbatim>\<open>noCache\<close> is set or, when \<open>answer\<close> is false, the read
  misses (expired or unreadable).  The ttl is kept as it is handed to \<^verbatim>\<open>set\<close>.
\<close>

definition store_get ::
  "cache_opts \<Rightarrow> bool \<Rightarrow> (key \<rightharpoonup> cache_entry \<times> int) \<Rightarrow> key \<Rightarrow> cache_entry option" where
  [simp]: "store_get o_r answer st k =
             (if noCache o_r \<or> \<not> answer then None else map_option fst (st k))"

definition store_set ::
  "cache_opts \<Rightarrow> (key \<rightharpoonup> cache_entry \<times> int) \<Rightarrow> key \<Rightarrow> cache_entry \<times> int
     \<Rightarrow> (key \<rightharpoonup> cache_entry \<times> int)" where
  [simp]: "store_set o_r st k v = (if noStore o_r then st else st(k \<mapsto> v))"

definition put :: "rid \<Rightarrow> req \<Rightarrow> state \<Rightarrow> state" where
  "put r x s = s\<lparr>reqs := (reqs s)(r \<mapsto> x)\<rparr>"

text \<open>
  Lines 20-60 and 86-93: a request enters the middleware.  Anything but \<^verbatim>\<open>GET\<close> goes
  straight to \<^verbatim>\<open>next()\<close>.  Otherwise the options and the key are derived and
  \<^verbatim>\<open>PendingRequest[key]\<close> is tested: when it holds a promise the request awaits it,
  otherwise it awaits \<^verbatim>\<open>_cache.get(key)\<close> inside \<^verbatim>\<open>tryRespondWithCache\<close>.
\<close>

definition arrive :: "request \<Rightarrow> response \<Rightarrow> state \<Rightarrow> state" where
  "arrive q r0 s =
     (let k = cache_key q;
          p = (if method q \<noteq> ''GET'' then Bypass
               else case PendingRequest s k of
                      Some w \<Rightarrow> AwaitPending w
                    | None \<Rightarrow> AwaitGet False);
          x = \<lparr> rq = q, key = k, opts = derive_opts (cache_control q), scope = scope_of q,
                pc = p, res = r0, cap = empty_capture, age = 0, maxage = ttlsec s,
                responded = False, armed = False, registered = False, resolved = False,
                setting = False \<rparr>
      in s\<lparr>reqs := (reqs s)(nreq s \<mapsto> x), nreq := Suc (nreq s)\<rparr>)"

text \<open>
  Line 87: the awaited promise settles and the request goes on to
  \<^verbatim>\<open>tryRespondWithCache\<close> (line 88).  The registry holds only promises made at line 258,
  whose executor takes \<^verbatim>\<open>resolve\<close> alone: such a promise is fulfilled by the listener of
  lines 260-266 and is never rejected, whatever becomes of the origin call, so the
  \<^verbatim>\<open>catch\<close> of line 87 has nothing to log.
\<close>

definition promise_resolved :: "state \<Rightarrow> rid \<Rightarrow> bool" where
  "promise_resolved s w = (case reqs s w of None \<Rightarrow> False | Some y \<Rightarrow> resolved y)"

definition settled :: "rid \<Rightarrow> state \<Rightarrow> state" where
  "settled r s =
     (case reqs s r of
        None \<Rightarrow> s
      | Some x \<Rightarrow>
          (case pc x of
             AwaitPending w \<Rightarrow>
               if promise_resolved s w then put r (x\<lparr>pc := AwaitGet True\<rparr>) s else s
           | _ \<Rightarrow> s))"

text \<open>
  Lines 95-97 and 184: the refresh is scheduled in the same stretch as the test.
  Modelled from the spec: \<^verbatim>\<open>Span.Root\<close> (\<^verbatim>\<open>span.decorator.js\<close>, not in \<^verbatim>\<open>src/\<close>) is tracing,
  which the spec has wrap its target transparently: the value stored in the registry
  is the promise of the task.
\<close>

definition schedule_recache :: "rid \<Rightarrow> key \<Rightarrow> int \<times> int \<Rightarrow> state \<Rightarrow> state" where
  "schedule_recache r k ended s =
     (if PendingRecache s k = None \<and> recacheable ended
      then s\<lparr>PendingRecache := (PendingRecache s)(k \<mapsto> r),
             tasks := (tasks s)(r \<mapsto> \<lparr>t_key = k, t_age = snd ended, t_phase = AwaitClose\<rparr>)\<rparr>
      else s)"

text \<open>
  Lines 189-281 up to the \<^verbatim>\<open>await\<close>: the response is patched, the request registers
  its promise unless \<^verbatim>\<open>opts.maxAgeSeconds\<close> is truthy, the cache context is created and
  the downstream handler starts.  The listener of \<^verbatim>\<open>close\<close> (lines 267-271) redefines
  \<^verbatim>\<open>ctx.writable\<close>, which nothing here reads.  Modelled from the spec: \<^verbatim>\<open>Cache.run\<close>
  (\<^verbatim>\<open>decorators/cache.js\<close>, not in \<^verbatim>\<open>src/\<close>) runs \<^verbatim>\<open>next\<close> with the cache context attached
  to the request and settles as \<^verbatim>\<open>next\<close> does.
\<close>

definition start_origin :: "rid \<Rightarrow> req \<Rightarrow> state \<Rightarrow> state" where
  "start_origin r x s =
     (let x1 = x\<lparr>cap := empty_capture, responded := False, armed := False, age := 0,
                 maxage := ttlsec s, pc := Running\<rparr>
      in if \<not> maxAge_truthy (opts x)
         then put r (x1\<lparr>registered := True, resolved := False\<rparr>)
                (s\<lparr>PendingRequest := (PendingRequest s)(key x \<mapsto> r)\<rparr>)
         else put r x1 s)"

text \<open>
  \<^verbatim>\<open>_cache.get(key)\<close> completes (line 62).  A hit is served (lines 65-84) and, when the
  request did not wait for a pending call, the refresh test of lines 94-97 follows; a
  miss leads to line 189 on both paths.  The \<^verbatim>\<open>writeHead\<close> of line 82 is that of Node and
  throws when a header has been sent already: \<^verbatim>\<open>cache\<close> rejects there, nothing is served
  and line 95 is not reached.  That is so whenever the response is the proxy of a
  refresh: the call runs on the proxy (line 159) and finds the header of the real
  response, which was sent before its \<^verbatim>\<open>close\<close>.
\<close>

definition header_sent :: "response \<Rightarrow> bool" where
  "header_sent r = (recache r \<or> wire r \<noteq> [])"

definition cache_got :: "rid \<Rightarrow> bool \<Rightarrow> state \<Rightarrow> state" where
  "cache_got r answer s =
     (case reqs s r of
        None \<Rightarrow> s
      | Some x \<Rightarrow>
          (case pc x of
             AwaitGet waited \<Rightarrow>
               (case store_get (opts x) answer (store s) (key x) of
                  Some e \<Rightarrow>
                    (let ended = hit_times (clock s) (head e);
                         x1 = x\<lparr>res := respond_hit (scope x) (key x) (clock s) e (res x),
                                 pc := Served\<rparr>
                     in if header_sent (res x)
                        then put r (x\<lparr>pc := Failed ''ERR_HTTP_HEADERS_SENT''\<rparr>) s
                        else if waited then put r x1 s
                        else schedule_recache r (key x) ended (put r x1 s))
                | None \<Rightarrow> start_origin r x s)
           | _ \<Rightarrow> s))"

text \<open>Lines 260-266: the listener of \<^verbatim>\<open>finish\<close>, present only when line 257 let it be made.\<close>

definition emit_finish :: "rid \<Rightarrow> state \<Rightarrow> state" where
  "emit_finish r s =
     (case reqs s r of
        None \<Rightarrow> s
      | Some x \<Rightarrow>
          if registered x \<and> \<not> resolved x
          then put r (x\<lparr>resolved := True\<rparr>)
                 (s\<lparr>PendingRequest := (PendingRequest s)(key x := None)\<rparr>)
          else s)"

text \<open>Lines 287-299: the entry and the ttl handed to \<^verbatim>\<open>_cache.set\<close>.\<close>

definition write_through :: "int \<Rightarrow> req \<Rightarrow> cache_entry \<times> int" where
  "write_through now x =
     (let realttl = maxage x - age x;
          buffer = concat (chunks (cap x));
          iat' = now div 1000 - age x;
          exp' = iat' + maxage x;
          head' = \<lparr> iat = iat', exp = exp', status = finalStatus (cap x),
                    message = finalStatusMessage (cap x), type_h = contentType (cap x),
                    length_h = (if contentLength (cap x) \<noteq> [] then contentLength (cap x)
                                else toString (int (length buffer))),
                    encoding = contentEncoding (cap x) \<rparr>
      in (\<lparr> head = head', body = buffer \<rparr>, realttl))"

text \<open>
  \<^verbatim>\<open>onFinish\<close>, called by the one-shot listener of \<^verbatim>\<open>response\<close> (lines 254-256): the first
  version (lines 251-253) until the \<^verbatim>\<open>finally\<close> of line 281 installs the second (lines
  285-305).  The write is handed to the store at the call, with the options the store
  was made from; \<open>setting\<close> holds until its promise settles.
\<close>

definition on_finish :: "rid \<Rightarrow> state \<Rightarrow> state" where
  "on_finish r s =
     (case reqs s r of
        None \<Rightarrow> s
      | Some x \<Rightarrow>
          if armed x
          then (if 200 \<le> finalStatus (cap x) \<and> finalStatus (cap x) < 500
                then put r (x\<lparr>setting := True\<rparr>)
                       (s\<lparr>store := store_set (opts x) (store s) (key x) (write_through (clock s) x)\<rparr>)
                else emit_finish r s)
          else emit_finish r s)"

text \<open>
  What downstream code and Koa's \<^verbatim>\<open>respond\<close> do to the patched response and to the cache
  context while the request is past line 281.  A request for which \<^verbatim>\<open>cache\<close> rejected at
  line 82 (\<open>Failed\<close>) has no patched response.
\<close>

datatype op =
    SetStatusCode int
  | SetStatusMessage string
  | SetHeader string string
  | WriteHead int arg "hdrs option"
  | Write string
  | End "string option"
  | SetAge int
  | SetMaxage int

definition patched :: "pc \<Rightarrow> bool" where
  "patched p = (case p of Running \<Rightarrow> True | Returned \<Rightarrow> True | Threw e \<Rightarrow> True | _ \<Rightarrow> False)"

definition handler :: "rid \<Rightarrow> op \<Rightarrow> state \<Rightarrow> state" where
  "handler r f s =
     (case reqs s r of
        None \<Rightarrow> s
      | Some x \<Rightarrow>
          if \<not> patched (pc x) then s
          else (case f of
                  SetStatusCode n \<Rightarrow> put r (x\<lparr>res := (res x)\<lparr>statusCode := n\<rparr>\<rparr>) s
                | SetStatusMessage m \<Rightarrow> put r (x\<lparr>res := (res x)\<lparr>statusMessage := m\<rparr>\<rparr>) s
                | SetHeader n v \<Rightarrow> put r (x\<lparr>res := setHeader n v (res x)\<rparr>) s
                | WriteHead st m h \<Rightarrow>
                    (let cr = patched_writeHead st m h (cap x, res x)
                     in put r (x\<lparr>cap := fst cr, res := snd cr\<rparr>) s)
                | Write c \<Rightarrow>
                    (let cr = patched_write c (cap x, res x)
                     in put r (x\<lparr>cap := fst cr, res := snd cr\<rparr>) s)
                | End d \<Rightarrow>
                    (let cr = patched_end d (cap x, res x);
                         x1 = x\<lparr>cap := fst cr, res := snd cr\<rparr>
                     in if responded x then put r x1 s
                        else on_finish r (put r (x1\<lparr>responded := True\<rparr>) s))
                | SetAge n \<Rightarrow> put r (x\<lparr>age := n\<rparr>) s
                | SetMaxage n \<Rightarrow> put r (x\<lparr>maxage := n\<rparr>) s))"

text \<open>
  Lines 281-306: \<^verbatim>\<open>Cache.run(cacheCtx, next)\<close> settles.  The \<^verbatim>\<open>finally\<close> sets the three
  headers and installs the second \<^verbatim>\<open>onFinish\<close>; a rejection then leaves \<^verbatim>\<open>cache\<close>.
\<close>

definition finally_headers :: "req \<Rightarrow> response" where
  "finally_headers x =
     setHeader ''cache-control'' (cache_control_value (scope x) (maxage x))
       (setHeader ''age'' (toString (age x))
          (setHeader ''x-cache'' ''miss'' (res x)))"

definition returned :: "rid \<Rightarrow> string option \<Rightarrow> state \<Rightarrow> state" where
  "returned r err s =
     (case reqs s r of
        None \<Rightarrow> s
      | Some x \<Rightarrow>
          (case pc x of
             Running \<Rightarrow>
               put r (x\<lparr>res := finally_headers x, armed := True,
                        pc := (case err of None \<Rightarrow> Returned | Some e \<Rightarrow> Threw e)\<rparr>) s
           | _ \<Rightarrow> s))"

text \<open>Line 300: the promise of \<^verbatim>\<open>_cache.set\<close> settles.\<close>

definition set_done :: "rid \<Rightarrow> state \<Rightarrow> state" where
  "set_done r s =
     (case reqs s r of
        None \<Rightarrow> s
      | Some x \<Rightarrow> if setting x then emit_finish r (put r (x\<lparr>setting := False\<rparr>) s) else s)"

text \<open>
  Lines 98-103: \<^verbatim>\<open>close\<close> on the response of the request that scheduled a refresh.
  The task rewrites the \<^verbatim>\<open>cache-control\<close> header of the request object and replays it
  through \<^verbatim>\<open>ctx.app.callback()\<close> against the proxy; the replayed request reaches the
  middleware as an arrival of its own.
\<close>

definition closed :: "rid \<Rightarrow> state \<Rightarrow> state" where
  "closed r s =
     (case tasks s r of
        None \<Rightarrow> s
      | Some t \<Rightarrow>
          if t_phase t = AwaitClose
          then (let s1 = s\<lparr>tasks := (tasks s)(r \<mapsto> t\<lparr>t_phase := Replaying\<rparr>)\<rparr>
                in case reqs s r of
                     None \<Rightarrow> s1
                   | Some x \<Rightarrow>
                       put r (x\<lparr>rq := (rq x)\<lparr>cache_control :=
                                  ''server; max-age='' @ toString (t_age t div 2) @ '';''\<rparr>\<rparr>) s1)
          else s)"

text \<open>
  Lines 162-183: the chain of the task settles.  \<open>ReplayStatus n\<close>: the replay
  completed with \<^verbatim>\<open>resProxy.statusCode\<close> n (lines 163-180); \<open>ReplayError e\<close>: a rejection
  anywhere in the chain (line 182).  Line 183 runs in every case.
\<close>

datatype replay = ReplayStatus int | ReplayError string

definition replayed :: "rid \<Rightarrow> replay \<Rightarrow> state \<Rightarrow> state" where
  "replayed r out s =
     (case tasks s r of
        None \<Rightarrow> s
      | Some t \<Rightarrow>
          (let line = (case out of
                         ReplayStatus n \<Rightarrow>
                           if 200 \<le> n \<and> n < 500 then Recached (t_key t)
                           else RecacheFailed (t_key t) n
                       | ReplayError e \<Rightarrow> RecacheError e);
               possible = (case out of ReplayStatus n \<Rightarrow> t_phase t = Replaying
                                     | ReplayError e \<Rightarrow> True)
           in if possible
              then s\<lparr>console := console s @ [line],
                     PendingRecache := (PendingRecache s)(t_key t := None),
                     tasks := (tasks s)(r := None)\<rparr>
              else s))"

datatype event =
    Tick int
  | Arrive request response
  | Settled rid
  | CacheGot rid bool
  | Handler rid op
  | Return rid "string option"
  | SetDone rid
  | Close rid
  | Replayed rid replay

fun step :: "event \<Rightarrow> state \<Rightarrow> state" where
  "step (Tick t) s = s\<lparr>clock := t\<rparr>"
| "step (Arrive q r0) s = arrive q r0 s"
| "step (Settled r) s = settled r s"
| "step (CacheGot r answer) s = cache_got r answer s"
| "step (Handler r f) s = handler r f s"
| "step (Return r err) s = returned r err s"
| "step (SetDone r) s = set_done r s"
| "step (Close r) s = closed r s"
| "step (Replayed r out) s = replayed r out s"

definition run :: "event list \<Rightarrow> state \<Rightarrow> state" where
  "run evs s = foldl (\<lambda>s' e. step e s') s evs"

section \<open>Observations and notions used in the statements\<close>

text \<open>The values interpolated into the key at line 58, in order.\<close>

definition key_parts :: "request \<Rightarrow> string list" where
  "key_parts q =
     [method q, path q, qs_stringify (strip_lang (query q)), isPro_tag q, domain_tag q,
      lang_tag q, format_tag q, encoding_tag q]"

text \<open>
  The key separates its parts with a space and the path from the query with a question
  mark; a request is separator free when the parts that the middleware does not
  render itself contain neither.
\<close>

definition separator_free :: "request \<Rightarrow> bool" where
  "separator_free q \<longleftrightarrow>
     CHR '' '' \<notin> set (method q) \<and> CHR ''?'' \<notin> set (path q)
     \<and> CHR '' '' \<notin> set (domain_tag q) \<and> CHR '' '' \<notin> set (lang_tag q)
     \<and> CHR '' '' \<notin> set (format_tag q)"

definition pc_of :: "state \<Rightarrow> rid \<Rightarrow> pc option" where
  "pc_of s r = map_option pc (reqs s r)"

definition key_at :: "state \<Rightarrow> rid \<Rightarrow> key option" where
  "key_at s r = map_option key (reqs s r)"

definition header_of :: "state \<Rightarrow> rid \<Rightarrow> string \<Rightarrow> string option" where
  "header_of s r name = (case reqs s r of None \<Rightarrow> None | Some y \<Rightarrow> getHeader (res y) name)"

definition final_status_of :: "state \<Rightarrow> rid \<Rightarrow> int option" where
  "final_status_of s r = (case reqs s r of None \<Rightarrow> None | Some y \<Rightarrow> Some (finalStatus (cap y)))"

definition wire_of :: "state \<Rightarrow> rid \<Rightarrow> wire_call list" where
  "wire_of s r = (case reqs s r of None \<Rightarrow> [] | Some y \<Rightarrow> wire (res y))"

definition stored_head :: "state \<Rightarrow> key \<Rightarrow> entry_head option" where
  "stored_head s k = (case store s k of None \<Rightarrow> None | Some p \<Rightarrow> Some (head (fst p)))"

definition stored_ttl :: "state \<Rightarrow> key \<Rightarrow> int option" where
  "stored_ttl s k = (case store s k of None \<Rightarrow> None | Some p \<Rightarrow> Some (snd p))"

text \<open>The request an event continues; arrivals and the clock belong to none.\<close>

fun actor :: "event \<Rightarrow> rid option" where
  "actor (Tick t) = None"
| "actor (Arrive q r0) = None"
| "actor (Settled r) = Some r"
| "actor (CacheGot r a) = Some r"
| "actor (Handler r f) = Some r"
| "actor (Return r e) = Some r"
| "actor (SetDone r) = Some r"
| "actor (Close r) = Some r"
| "actor (Replayed r out) = Some r"

text \<open>
  The refresh registry and the live refresh tasks agree: every registered key names a
  live task for that key, every live task is registered under its key, which is the
  key of the request that scheduled it, and request names are handed out in order.
\<close>

definition recache_inv :: "state \<Rightarrow> bool" where
  "recache_inv s \<longleftrightarrow>
     (\<forall>k t. PendingRecache s k = Some t \<longrightarrow> (\<exists>tk. tasks s t = Some tk \<and> t_key tk = k))
   \<and> (\<forall>t tk. tasks s t = Some tk \<longrightarrow>
          PendingRecache s (t_key tk) = Some t \<and> key_at s t = Some (t_key tk))
   \<and> (\<forall>t. key_at s t \<noteq> None \<longrightarrow> t < nreq s)"

text \<open>
  A real, writable response on which nothing has been written belongs to a request
  that has captured nothing.
\<close>

definition nothing_captured :: "state \<Rightarrow> bool" where
  "nothing_captured s \<longleftrightarrow>
     (\<forall>r x. reqs s r = Some x \<and> \<not> recache (res x) \<and> writable (res x) \<and> wire (res x) = []
        \<longrightarrow> cap x = empty_capture)"

text \<open>A request with a truthy \<^verbatim>\<open>opts.maxAgeSeconds\<close> that has made no promise.\<close>

definition unregistered :: "rid \<Rightarrow> state \<Rightarrow> bool" where
  "unregistered r s \<longleftrightarrow>
     (case reqs s r of None \<Rightarrow> False
      | Some x \<Rightarrow> maxAge_truthy (opts x) \<and> \<not> registered x \<and> r < nreq s)"

subsection \<open>Sample requests and schedules\<close>

text \<open>
  \<^verbatim>\<open>GET /items?sort=asc&lang_ID=fr\<close>, anonymous, domain \<^verbatim>\<open>shop\<close>, locale \<^verbatim>\<open>en\<close>,
  \<^verbatim>\<open>accept-encoding: gzip\<close>.
\<close>

definition items_request :: request where
  "items_request =
     \<lparr> method = ''GET'', path = ''/items'', query = [(''sort'', ''asc''), (''lang_ID'', ''fr'')],
       cache_control = [], authorization = [], accept_encoding = ''gzip'', user_pro = False,
       domain_of = Some \<lparr>prefix_d = ''shop'', numericFormat = []\<rparr>,
       locale_of = Some \<lparr>tag = ''en''\<rparr> \<rparr>"

definition items_key :: key where
  "items_key = ''GET /items?sort=asc isPro=false domain=shop lang=en format=none encoding=gzip''"

text \<open>The same logical request with another locale override and encoding list.\<close>

definition items_request_de :: request where
  "items_request_de =
     items_request\<lparr>query := [(''sort'', ''asc''), (''lang_ID'', ''de'')],
                    accept_encoding := ''deflate, gzip''\<rparr>"

definition items_request_br :: request where
  "items_request_br = items_request\<lparr>accept_encoding := ''br''\<rparr>"

text \<open>Requests whose locale tag or numeric format contains the separator of the key.\<close>

definition spaced_locale :: request where
  "spaced_locale =
     items_request\<lparr>domain_of := Some \<lparr>prefix_d = ''shop'', numericFormat = ''eu''\<rparr>,
                    locale_of := Some \<lparr>tag = ''en format=us''\<rparr>\<rparr>"

definition spaced_format :: request where
  "spaced_format =
     items_request\<lparr>domain_of := Some \<lparr>prefix_d = ''shop'', numericFormat = ''us format=eu''\<rparr>,
                    locale_of := Some \<lparr>tag = ''en''\<rparr>\<rparr>"

text \<open>A request without a domain, and one whose domain has the prefix \<^verbatim>\<open>none\<close>.\<close>

definition no_domain :: request where
  "no_domain = items_request\<lparr>domain_of := None\<rparr>"

definition domain_named_none :: request where
  "domain_named_none =
     items_request\<lparr>domain_of := Some \<lparr>prefix_d = ''none'', numericFormat = []\<rparr>\<rparr>"

text \<open>Requests with a server-scoped \<^verbatim>\<open>max-age\<close>, as line 101 writes it.\<close>

definition override_30 :: request where
  "override_30 = items_request\<lparr>cache_control := ''server; max-age=30;''\<rparr>"

definition override_0 :: request where
  "override_0 = items_request\<lparr>cache_control := ''server; max-age=0;''\<rparr>"

text \<open>Two requests for the same key arrive before the first cache read has answered.\<close>

definition race :: "event list" where
  "race =
     [Arrive items_request (fresh_response False), Arrive items_request (fresh_response False),
      CacheGot 0 True, CacheGot 1 True]"

text \<open>
  A miss at second 1000 whose handler answers 200 with the default ttl, up to the handler's
  return; its completion; and a second request arriving 60 seconds later.
\<close>

definition miss_200 :: "event list" where
  "miss_200 =
     [Tick 1000000, Arrive items_request (fresh_response False), CacheGot 0 True,
      Handler 0 (SetStatusCode 200), Return 0 None]"

definition miss_then_arrival :: "event list" where
  "miss_then_arrival =
     miss_200 @ [Handler 0 (End (Some ''hello'')), SetDone 0, Tick 1060000,
                 Arrive items_request (fresh_response False)]"

text \<open>A miss whose handler answers 503.\<close>

definition miss_503 :: "event list" where
  "miss_503 =
     [Arrive items_request (fresh_response False), CacheGot 0 True,
      Handler 0 (SetStatusCode 503)]"

text \<open>
  The second request is served from the cache and schedules a refresh; a third request
  for the key arrives while that refresh is pending, is served, and the response of the
  second closes.
\<close>

definition refresh_pending :: "event list" where
  "refresh_pending =
     miss_then_arrival @ [CacheGot 1 True, Arrive items_request (fresh_response False)]"

definition refresh_replaying :: "event list" where
  "refresh_replaying = refresh_pending @ [CacheGot 2 True, Close 1]"

text \<open>
  A second request arrives while the first runs the handler, and the first then
  completes with status 200.
\<close>

definition waiting :: "event list" where
  "waiting =
     [Tick 1000000, Arrive items_request (fresh_response False), CacheGot 0 True,
      Arrive items_request (fresh_response False), Handler 0 (SetStatusCode 200),
      Return 0 None, Handler 0 (End (Some ''hello'')), SetDone 0]"

text \<open>The waiting request is released 1000 seconds after the entry was issued.\<close>

definition waited_hit :: "event list" where
  "waited_hit = waiting @ [Tick 2000000, Settled 1]"

text \<open>A miss whose handler writes to the response itself before it answers 503.\<close>

definition streamed_503 :: "event list" where
  "streamed_503 =
     miss_503 @ [Handler 0 (Write ''partial''), Return 0 None, Handler 0 (End None)]"

text \<open>What a request does after its arrival when the cache has no entry for it.\<close>

definition override_30_miss :: "event list" where
  "override_30_miss = [CacheGot 0 True, Handler 0 (SetStatusCode 200), Return 0 None]"

definition override_0_miss :: "event list" where
  "override_0_miss = [Arrive override_0 (fresh_response False), CacheGot 0 True]"

text \<open>
  A replayed request against the proxy whose handler sends its content type with
  \<^verbatim>\<open>writeHead(200, headers)\<close>, and the same with \<^verbatim>\<open>writeHead(200, 'OK', headers)\<close>.
\<close>

definition html_headers :: hdrs where
  "html_headers = Obj [(''content-type'', Some ''text/html'')]"

definition shadow_refresh :: "event list" where
  "shadow_refresh =
     [Tick 1000000, Arrive override_30 (fresh_response True), CacheGot 0 True,
      Handler 0 (WriteHead 200 (Headers html_headers) None), Handler 0 (Write ''<p>hi</p>''),
      Return 0 None, Handler 0 (End None)]"

definition shadow_refresh_message :: "event list" where
  "shadow_refresh_message =
     [Tick 1000000, Arrive override_30 (fresh_response True), CacheGot 0 True,
      Handler 0 (WriteHead 200 (Str ''OK'') (Some html_headers)), Handler 0 (Write ''<p>hi</p>''),
      Return 0 None, Handler 0 (End None)]"

text \<open>
  A miss whose handler answers 200 and ends the response itself, before it returns:
  the response ends while the first \<^verbatim>\<open>onFinish\<close> (lines 251-253) is still in place.
\<close>

definition early_end :: "event list" where
  "early_end =
     [Tick 1000000, Arrive items_request (fresh_response False), CacheGot 0 True,
      Handler 0 (SetStatusCode 200), Handler 0 (End (Some ''hello'')), Return 0 None]"

text \<open>The miss of \<open>miss_200\<close>, completed, for a request that forbids the write.\<close>

definition no_store_request :: request where
  "no_store_request = items_request\<lparr>cache_control := ''no-store, server''\<rparr>"

definition no_store_miss :: "event list" where
  "no_store_miss =
     [Tick 1000000, Arrive no_store_request (fresh_response False), CacheGot 0 True,
      Handler 0 (SetStatusCode 200), Return 0 None, Handler 0 (End (Some ''hello'')),
      SetDone 0]"

text \<open>
  A second request arrives while the first runs the handler; the handler of the first
  throws and the response is then ended with status 500.  After that the second
  request is released.
\<close>

definition failed_origin :: "event list" where
  "failed_origin =
     [Tick 1000000, Arrive items_request (fresh_response False), CacheGot 0 True,
      Arrive items_request (fresh_response False), Return 0 (Some ''boom''),
      Handler 0 (SetStatusCode 500), Handler 0 (End (Some ''Internal Server Error''))]"

definition failed_origin_released :: "event list" where
  "failed_origin_released = failed_origin @ [Settled 1]"

section \<open>CacheControlPolicy\<close>

text \<open>
  Claim C4, as stated: caching reads are disabled only when the \<^verbatim>\<open>cache-control\<close>
  header contains \<^verbatim>\<open>no-cache\<close> and lacks a \<^verbatim>\<open>server\<close> token.  The header
  \<^verbatim>\<open>no-cache, server\<close> contains the token and reads are disabled for it.
\<close>

theorem C4_counterexample:
  "\<not> (noCache (derive_opts ''no-cache, server'')
        \<longrightarrow> matches ''no-cache'' ''no-cache, server'' \<and> \<not> matches ''server'' ''no-cache, server'')"
  by (simp add: derive_opts_def shouldRead_def)

text \<open>
  Claim C4, amended: the derived directives disable cache reads (\<open>noCache\<close>) exactly when
  the \<^verbatim>\<open>cache-control\<close> header contains \<^verbatim>\<open>no-cache\<close> and contains \<^verbatim>\<open>server\<close>, and disable
  cache writes (\<open>noStore\<close>) exactly when it contains \<^verbatim>\<open>no-store\<close> and contains \<^verbatim>\<open>server\<close>;
  these are the options every request entering the middleware carries.
\<close>

theorem C4_directives:
  "noCache (derive_opts cc) = (matches ''no-cache'' cc \<and> matches ''server'' cc)
   \<and> noStore (derive_opts cc) = (matches ''no-store'' cc \<and> matches ''server'' cc)
   \<and> (\<forall>q r0 s x. reqs (step (Arrive q r0) s) (nreq s) = Some x
         \<longrightarrow> opts x = derive_opts (cache_control q))"
  by (simp add: derive_opts_def shouldRead_def shouldWrite_def arrive_def Let_def)

theorem C4_directives_witness:
  "noCache (derive_opts ''no-cache, server'') \<and> \<not> noCache (derive_opts ''no-cache'')
   \<and> noStore (derive_opts ''server, no-store'') \<and> \<not> noStore (derive_opts ''no-store'')"
  using C4_directives [of "''no-cache, server''"] C4_directives [of "''no-cache''"]
        C4_directives [of "''server, no-store''"] C4_directives [of "''no-store''"]
  by simp

section \<open>CacheKeyBuilder\<close>

lemma split_at_sep:
  "c \<notin> set a \<Longrightarrow> c \<notin> set a' \<Longrightarrow> a @ c # r = a' @ c # r' \<Longrightarrow> a = a' \<and> r = r'"
proof (induction a arbitrary: a')
  case Nil
  then show ?case by (cases a') auto
next
  case (Cons x xs)
  then show ?case by (cases a') auto
qed

lemma hex_digit_no_space: "n < 16 \<Longrightarrow> hex_digit n \<noteq> CHR '' ''"
proof -
  assume "n < 16"
  then have "hex_digit n \<in> set ''0123456789ABCDEF''"
    unfolding hex_digit_def by (intro nth_mem) simp
  then show ?thesis by auto
qed

lemma of_char_div16: "(of_char (c::char) :: nat) div 16 < 16"
proof -
  have "(of_char c :: nat) mod 256 < 256" by (rule mod_less_divisor) simp
  then have "(of_char c :: nat) < 256" by simp
  then show ?thesis by arith
qed

lemma qs_escape_char_no_space: "CHR '' '' \<notin> set (qs_escape_char c)"
  using hex_digit_no_space [OF of_char_div16 [of c]]
        hex_digit_no_space [of "of_char c mod 16"]
  by (auto simp: qs_escape_char_def unreserved_def)

lemma qs_escape_no_space: "CHR '' '' \<notin> set (qs_escape s)"
  by (induction s) (auto simp: qs_escape_def qs_escape_char_no_space)

lemma join_no_char:
  "c \<notin> set sep \<Longrightarrow> \<forall>x\<in>set xs. c \<notin> set x \<Longrightarrow> c \<notin> set (join sep xs)"
  by (induction sep xs rule: join.induct) auto

text \<open>The serialised query never contains a space: \<^verbatim>\<open>qs.stringify\<close> escapes it.\<close>

lemma qs_stringify_no_space: "CHR '' '' \<notin> set (qs_stringify q)"
  unfolding qs_stringify_def
  by (rule join_no_char) (auto simp: qs_escape_no_space)

lemma key_shape_inj:
  assumes "CHR '' '' \<notin> set m" "CHR '' '' \<notin> set m'"
      "CHR ''?'' \<notin> set p" "CHR ''?'' \<notin> set p'"
      "CHR '' '' \<notin> set qs" "CHR '' '' \<notin> set qs'"
      "CHR '' '' \<notin> set a" "CHR '' '' \<notin> set a'"
      "CHR '' '' \<notin> set d" "CHR '' '' \<notin> set d'"
      "CHR '' '' \<notin> set l" "CHR '' '' \<notin> set l'"
      "CHR '' '' \<notin> set f" "CHR '' '' \<notin> set f'"
    and eq: "m @ '' '' @ p @ ''?'' @ qs @ '' isPro='' @ a @ '' domain='' @ d @ '' lang='' @ l
            @ '' format='' @ f @ '' encoding='' @ e
          = m' @ '' '' @ p' @ ''?'' @ qs' @ '' isPro='' @ a' @ '' domain='' @ d' @ '' lang='' @ l'
            @ '' format='' @ f' @ '' encoding='' @ e'"
  shows "[m, p, qs, a, d, l, f, e] = [m', p', qs', a', d', l', f', e']"
proof -
  let ?r5 = "''format='' @ f @ CHR '' '' # ''encoding='' @ e"
  let ?r5' = "''format='' @ f' @ CHR '' '' # ''encoding='' @ e'"
  let ?r4 = "''lang='' @ l @ CHR '' '' # ?r5"
  let ?r4' = "''lang='' @ l' @ CHR '' '' # ?r5'"
  let ?r3 = "''domain='' @ d @ CHR '' '' # ?r4"
  let ?r3' = "''domain='' @ d' @ CHR '' '' # ?r4'"
  let ?r2 = "''isPro='' @ a @ CHR '' '' # ?r3"
  let ?r2' = "''isPro='' @ a' @ CHR '' '' # ?r3'"
  let ?r1 = "qs @ CHR '' '' # ?r2"
  let ?r1' = "qs' @ CHR '' '' # ?r2'"
  let ?r0 = "p @ CHR ''?'' # ?r1"
  let ?r0' = "p' @ CHR ''?'' # ?r1'"
  from eq have "m @ CHR '' '' # ?r0 = m' @ CHR '' '' # ?r0'" by simp
  from split_at_sep [OF assms(1,2) this] have 0: "m = m'" "?r0 = ?r0'" by blast+
  from split_at_sep [OF assms(3,4) 0(2)] have 1: "p = p'" "?r1 = ?r1'" by blast+
  from split_at_sep [OF assms(5,6) 1(2)] have 2: "qs = qs'" "?r2 = ?r2'" by blast+
  have "(''isPro='' @ a) @ CHR '' '' # ?r3 = (''isPro='' @ a') @ CHR '' '' # ?r3'"
    using 2(2) by simp
  from split_at_sep [OF _ _ this] assms(7,8) have 3: "a = a'" "?r3 = ?r3'" by auto
  have "(''domain='' @ d) @ CHR '' '' # ?r4 = (''domain='' @ d') @ CHR '' '' # ?r4'"
    using 3(2) by simp
  from split_at_sep [OF _ _ this] assms(9,10) have 4: "d = d'" "?r4 = ?r4'" by auto
  have "(''lang='' @ l) @ CHR '' '' # ?r5 = (''lang='' @ l') @ CHR '' '' # ?r5'"
    using 4(2) by simp
  from split_at_sep [OF _ _ this] assms(11,12) have 5: "l = l'" "?r5 = ?r5'" by auto
  have "(''format='' @ f) @ CHR '' '' # ''encoding='' @ e
      = (''format='' @ f') @ CHR '' '' # ''encoding='' @ e'"
    using 5(2) by simp
  from split_at_sep [OF _ _ this] assms(13,14) have 6: "f = f'" "e = e'" by auto
  from 0 1 2 3 4 5 6 show ?thesis by simp
qed

lemma cache_key_shape:
  "cache_key q =
     method q @ '' '' @ path q @ ''?'' @ qs_stringify (strip_lang (query q)) @ '' isPro=''
       @ isPro_tag q @ '' domain='' @ domain_tag q @ '' lang='' @ lang_tag q @ '' format=''
       @ format_tag q @ '' encoding='' @ encoding_tag q"
  by (simp add: cache_key_def cachekeys_def)

lemma isPro_tag_no_space: "CHR '' '' \<notin> set (isPro_tag q)"
  by (simp add: isPro_tag_def)

lemma same_parts_same_key: "key_parts q = key_parts q' \<Longrightarrow> cache_key q = cache_key q'"
  by (simp add: cache_key_shape key_parts_def)

lemma one_part_differs:
  assumes "pos < 8" "key_parts q ! pos \<noteq> key_parts q' ! pos"
    "(key_parts q)[pos := key_parts q' ! pos] = key_parts q'"
  shows "cache_key q \<noteq> cache_key q'"
proof -
  from assms(1) have "pos \<in> {0, 1, 2, 3, 4, 5, 6, 7}" by auto
  with assms(2,3) show ?thesis
    by (auto simp: cache_key_def key_parts_def cachekeys_def)
qed

lemma separator_free_inj:
  assumes "separator_free q" "separator_free q'" "cache_key q = cache_key q'"
  shows "key_parts q = key_parts q'"
  unfolding key_parts_def
proof (rule key_shape_inj)
  show "method q @ '' '' @ path q @ ''?'' @ qs_stringify (strip_lang (query q)) @ '' isPro=''
       @ isPro_tag q @ '' domain='' @ domain_tag q @ '' lang='' @ lang_tag q @ '' format=''
       @ format_tag q @ '' encoding='' @ encoding_tag q
     = method q' @ '' '' @ path q' @ ''?'' @ qs_stringify (strip_lang (query q')) @ '' isPro=''
       @ isPro_tag q' @ '' domain='' @ domain_tag q' @ '' lang='' @ lang_tag q' @ '' format=''
       @ format_tag q' @ '' encoding='' @ encoding_tag q'"
    using assms(3) by (simp only: cache_key_shape)
qed (use assms(1,2) in \<open>simp_all add: separator_free_def qs_stringify_no_space isPro_tag_no_space\<close>)

text \<open>
  Claim C7, as stated: two requests that differ in any of the dimensions get different
  keys.  A locale tag \<^verbatim>\<open>en format=us\<close> with format \<^verbatim>\<open>eu\<close> and a locale tag \<^verbatim>\<open>en\<close> with
  format \<^verbatim>\<open>us format=eu\<close> give one key, and so do a request without a domain and a
  request whose domain has the prefix \<^verbatim>\<open>none\<close>.
\<close>

theorem C7_counterexample:
  "(lang_tag spaced_locale \<noteq> lang_tag spaced_format
      \<and> cache_key spaced_locale = cache_key spaced_format)
   \<and> (domain_of no_domain \<noteq> domain_of domain_named_none
      \<and> cache_key no_domain = cache_key domain_named_none)"
  by code_simp

text \<open>
  Claim C7, amended.  The dimensions are the values rendered into the key: method, path,
  the serialised query without \<^verbatim>\<open>lang_ID\<close>, \<^verbatim>\<open>isPro\<close>, and domain prefix, locale tag and
  numeric format with an absent or empty value rendered as \<^verbatim>\<open>none\<close>, and the negotiated
  encoding.  Requests that agree on method, path, stripped query, entitlement and the
  rendered domain, locale, format and encoding have the same key.  Two requests that
  differ in exactly one rendered dimension have different keys.  Two requests that
  differ in any rendered dimension have different keys when both are separator free:
  no space in the method and in the rendered domain, locale and format, and no question
  mark in the path.
\<close>

theorem C7_cache_key:
  "(method q = method q' \<and> path q = path q'
      \<and> strip_lang (query q) = strip_lang (query q') \<and> user_pro q = user_pro q'
      \<and> domain_tag q = domain_tag q' \<and> lang_tag q = lang_tag q'
      \<and> format_tag q = format_tag q' \<and> encoding_tag q = encoding_tag q'
     \<longrightarrow> cache_key q = cache_key q')
   \<and> ((\<exists>i<8. key_parts q ! i \<noteq> key_parts q' ! i
              \<and> (key_parts q)[i := key_parts q' ! i] = key_parts q')
     \<longrightarrow> cache_key q \<noteq> cache_key q')
   \<and> (separator_free q \<and> separator_free q' \<and> key_parts q \<noteq> key_parts q'
     \<longrightarrow> cache_key q \<noteq> cache_key q')"
proof (intro conjI impI)
  assume "method q = method q' \<and> path q = path q'
      \<and> strip_lang (query q) = strip_lang (query q') \<and> user_pro q = user_pro q'
      \<and> domain_tag q = domain_tag q' \<and> lang_tag q = lang_tag q'
      \<and> format_tag q = format_tag q' \<and> encoding_tag q = encoding_tag q'"
  then have "key_parts q = key_parts q'" by (simp add: key_parts_def isPro_tag_def)
  then show "cache_key q = cache_key q'" by (rule same_parts_same_key)
next
  assume "\<exists>i<8. key_parts q ! i \<noteq> key_parts q' ! i
              \<and> (key_parts q)[i := key_parts q' ! i] = key_parts q'"
  then show "cache_key q \<noteq> cache_key q'" using one_part_differs by blast
next
  assume "separator_free q \<and> separator_free q' \<and> key_parts q \<noteq> key_parts q'"
  then show "cache_key q \<noteq> cache_key q'" using separator_free_inj by blast
qed

theorem C7_cache_key_witness:
  "cache_key items_request = cache_key items_request_de
   \<and> query items_request \<noteq> query items_request_de
   \<and> accept_encoding items_request \<noteq> accept_encoding items_request_de
   \<and> cache_key items_request \<noteq> cache_key items_request_br
   \<and> cache_key items_request \<noteq> cache_key no_domain"
proof -
  have same: "method items_request = method items_request_de
      \<and> path items_request = path items_request_de
      \<and> strip_lang (query items_request) = strip_lang (query items_request_de)
      \<and> user_pro items_request = user_pro items_request_de
      \<and> domain_tag items_request = domain_tag items_request_de
      \<and> lang_tag items_request = lang_tag items_request_de
      \<and> format_tag items_request = format_tag items_request_de
      \<and> encoding_tag items_request = encoding_tag items_request_de"
    by code_simp
  have raw: "query items_request \<noteq> query items_request_de
      \<and> accept_encoding items_request \<noteq> accept_encoding items_request_de"
    by code_simp
  have one: "\<exists>i<8. key_parts items_request ! i \<noteq> key_parts items_request_br ! i
      \<and> (key_parts items_request)[i := key_parts items_request_br ! i]
          = key_parts items_request_br"
    by (rule exI [of _ 7]) code_simp
  have free: "separator_free items_request \<and> separator_free no_domain
      \<and> key_parts items_request \<noteq> key_parts no_domain"
    by code_simp
  from C7_cache_key [of items_request items_request_de] same
  have "cache_key items_request = cache_key items_request_de" by blast
  moreover from C7_cache_key [of items_request items_request_br] one
  have "cache_key items_request \<noteq> cache_key items_request_br" by blast
  moreover from C7_cache_key [of items_request no_domain] free
  have "cache_key items_request \<noteq> cache_key no_domain" by blast
  ultimately show ?thesis using raw by blast
qed

section \<open>What each step leaves alone\<close>

lemma put_simps [simp]:
  "reqs (put r x s) = (reqs s)(r \<mapsto> x)"
  "tasks (put r x s) = tasks s"
  "PendingRecache (put r x s) = PendingRecache s"
  "PendingRequest (put r x s) = PendingRequest s"
  "store (put r x s) = store s"
  "console (put r x s) = console s"
  "nreq (put r x s) = nreq s"
  "clock (put r x s) = clock s"
  "ttlsec (put r x s) = ttlsec s"
  by (simp_all add: put_def)

lemma key_at_put [simp]: "key_at (put r x s) t = (if t = r then Some (key x) else key_at s t)"
  by (simp add: key_at_def)

lemma emit_finish_frame [simp]:
  "tasks (emit_finish r s) = tasks s"
  "PendingRecache (emit_finish r s) = PendingRecache s"
  "store (emit_finish r s) = store s"
  "console (emit_finish r s) = console s"
  "nreq (emit_finish r s) = nreq s"
  "clock (emit_finish r s) = clock s"
  "ttlsec (emit_finish r s) = ttlsec s"
  by (simp_all add: emit_finish_def split: option.splits)

lemma emit_finish_key [simp]: "key_at (emit_finish r s) t = key_at s t"
  by (auto simp: emit_finish_def key_at_def split: option.splits)

lemma on_finish_frame [simp]:
  "tasks (on_finish r s) = tasks s"
  "PendingRecache (on_finish r s) = PendingRecache s"
  "console (on_finish r s) = console s"
  "nreq (on_finish r s) = nreq s"
  "clock (on_finish r s) = clock s"
  "ttlsec (on_finish r s) = ttlsec s"
  by (simp_all add: on_finish_def split: option.splits)

lemma on_finish_key [simp]: "key_at (on_finish r s) t = key_at s t"
  by (auto simp: on_finish_def split: option.splits) (auto simp: key_at_def)

lemma start_origin_frame [simp]:
  "tasks (start_origin r x s) = tasks s"
  "PendingRecache (start_origin r x s) = PendingRecache s"
  "store (start_origin r x s) = store s"
  "console (start_origin r x s) = console s"
  "nreq (start_origin r x s) = nreq s"
  by (simp_all add: start_origin_def Let_def)

lemma start_origin_key [simp]:
  "key_at (start_origin r x s) t = (if t = r then Some (key x) else key_at s t)"
  by (simp add: start_origin_def key_at_def Let_def)

lemma schedule_recache_frame [simp]:
  "reqs (schedule_recache r k e s) = reqs s"
  "PendingRequest (schedule_recache r k e s) = PendingRequest s"
  "store (schedule_recache r k e s) = store s"
  "console (schedule_recache r k e s) = console s"
  "nreq (schedule_recache r k e s) = nreq s"
  by (simp_all add: schedule_recache_def)

lemma schedule_recache_key [simp]: "key_at (schedule_recache r k e s) t = key_at s t"
  by (simp add: key_at_def)

text \<open>Requests keep their key; only an arrival adds one.\<close>

lemma settled_key [simp]: "key_at (settled r s) t = key_at s t"
  by (auto simp: settled_def key_at_def split: option.splits pc.splits)

lemma cache_got_key [simp]: "key_at (cache_got r a s) t = key_at s t"
  by (auto simp: cache_got_def Let_def split: option.splits pc.splits)
     (auto simp: key_at_def)

lemma handler_key [simp]: "key_at (handler r f s) t = key_at s t"
  by (auto simp: handler_def Let_def split: option.splits op.splits)
     (auto simp: key_at_def)

lemma returned_key [simp]: "key_at (returned r e s) t = key_at s t"
  by (auto simp: returned_def split: option.splits pc.splits)
     (auto simp: key_at_def)

lemma set_done_key [simp]: "key_at (set_done r s) t = key_at s t"
  by (auto simp: set_done_def split: option.splits)
     (auto simp: key_at_def)

lemma closed_key [simp]: "key_at (closed r s) t = key_at s t"
  by (auto simp: closed_def Let_def split: option.splits)
     (auto simp: key_at_def)

lemma replayed_key [simp]: "key_at (replayed r out s) t = key_at s t"
  by (auto simp: replayed_def Let_def key_at_def split: option.splits)

lemma arrive_key [simp]:
  "key_at (arrive q r0 s) t = (if t = nreq s then Some (cache_key q) else key_at s t)"
  by (simp add: arrive_def key_at_def Let_def)

lemma settled_recache [simp]:
  "tasks (settled r s) = tasks s" "PendingRecache (settled r s) = PendingRecache s"
  "nreq (settled r s) = nreq s"
  by (auto simp: settled_def split: option.splits pc.splits)

lemma handler_recache [simp]:
  "tasks (handler r f s) = tasks s" "PendingRecache (handler r f s) = PendingRecache s"
  "nreq (handler r f s) = nreq s"
  by (auto simp: handler_def Let_def split: option.splits op.splits)

lemma returned_recache [simp]:
  "tasks (returned r e s) = tasks s" "PendingRecache (returned r e s) = PendingRecache s"
  "nreq (returned r e s) = nreq s"
  by (auto simp: returned_def split: option.splits pc.splits)

lemma set_done_recache [simp]:
  "tasks (set_done r s) = tasks s" "PendingRecache (set_done r s) = PendingRecache s"
  "nreq (set_done r s) = nreq s"
  by (auto simp: set_done_def split: option.splits)

lemma arrive_recache [simp]:
  "tasks (arrive q r0 s) = tasks s" "PendingRecache (arrive q r0 s) = PendingRecache s"
  "nreq (arrive q r0 s) = Suc (nreq s)"
  by (simp_all add: arrive_def Let_def)

lemma closed_recache [simp]:
  "PendingRecache (closed r s) = PendingRecache s" "nreq (closed r s) = nreq s"
  by (auto simp: closed_def Let_def split: option.splits)

lemma closed_tasks:
  "tasks (closed r s) t = Some tk \<Longrightarrow> \<exists>tk'. tasks s t = Some tk' \<and> t_key tk' = t_key tk"
  by (auto simp: closed_def Let_def split: option.splits if_splits)

lemma closed_tasks_None [simp]: "tasks (closed r s) t = None \<longleftrightarrow> tasks s t = None"
  by (auto simp: closed_def Let_def split: option.splits if_splits)

lemma closed_tasks_key:
  "tasks s t = Some tk \<Longrightarrow> \<exists>tk'. tasks (closed r s) t = Some tk' \<and> t_key tk' = t_key tk"
  by (auto simp: closed_def Let_def split: option.splits if_splits)

lemma cache_got_nreq [simp]: "nreq (cache_got r a s) = nreq s"
  by (auto simp: cache_got_def Let_def schedule_recache_def split: option.splits pc.splits)

lemma replayed_nreq [simp]: "nreq (replayed r out s) = nreq s"
  by (auto simp: replayed_def Let_def split: option.splits)

lemma run_snoc: "run (evs @ [ev]) s = step ev (run evs s)"
  by (simp add: run_def)

section \<open>RecacheScheduler\<close>

text \<open>A cache read either leaves the refresh registry alone or schedules one task
  under a key that had none.\<close>

lemma cache_got_recache:
  "(PendingRecache (cache_got r a s) = PendingRecache s \<and> tasks (cache_got r a s) = tasks s)
   \<or> (\<exists>x. reqs s r = Some x \<and> PendingRecache s (key x) = None
         \<and> PendingRecache (cache_got r a s) = (PendingRecache s)(key x \<mapsto> r)
         \<and> tasks (cache_got r a s) =
             (tasks s)(r \<mapsto> \<lparr>t_key = key x,
                t_age = snd (hit_times (clock s) (head (fst (the (store s (key x)))))),
                t_phase = AwaitClose\<rparr>))"
  by (auto simp: cache_got_def Let_def schedule_recache_def split: option.splits pc.splits)

lemma inv_pending:
  "recache_inv s \<Longrightarrow> PendingRecache s k = Some t \<Longrightarrow> \<exists>tk. tasks s t = Some tk \<and> t_key tk = k"
  by (simp add: recache_inv_def)

lemma inv_task:
  "recache_inv s \<Longrightarrow> tasks s t = Some tk \<Longrightarrow> PendingRecache s (t_key tk) = Some t"
  by (simp add: recache_inv_def)

lemma inv_task_key:
  "recache_inv s \<Longrightarrow> tasks s t = Some tk \<Longrightarrow> key_at s t = Some (t_key tk)"
  by (simp add: recache_inv_def)

lemma inv_fresh: "recache_inv s \<Longrightarrow> key_at s t = Some k \<Longrightarrow> t < nreq s"
  by (simp add: recache_inv_def)

lemma recache_invI:
  assumes "\<And>k t. PendingRecache s k = Some t \<Longrightarrow> \<exists>tk. tasks s t = Some tk \<and> t_key tk = k"
    and "\<And>t tk. tasks s t = Some tk \<Longrightarrow> PendingRecache s (t_key tk) = Some t"
    and "\<And>t tk. tasks s t = Some tk \<Longrightarrow> key_at s t = Some (t_key tk)"
    and "\<And>t k. key_at s t = Some k \<Longrightarrow> t < nreq s"
  shows "recache_inv s"
  using assms unfolding recache_inv_def by blast

lemma recache_inv_init: "recache_inv (init ttl)"
  by (simp add: recache_inv_def init_def key_at_def)

lemma recache_inv_frame:
  assumes "recache_inv s" "PendingRecache s' = PendingRecache s" "tasks s' = tasks s"
    "\<And>t. key_at s' t = key_at s t" "nreq s' = nreq s"
  shows "recache_inv s'"
  using assms unfolding recache_inv_def by simp

lemma recache_inv_cache_got:
  assumes inv: "recache_inv s" shows "recache_inv (cache_got r a s)"
proof -
  from cache_got_recache [of r a s] show ?thesis
  proof (elim disjE exE conjE)
    assume "PendingRecache (cache_got r a s) = PendingRecache s"
      "tasks (cache_got r a s) = tasks s"
    with inv show ?thesis by (rule recache_inv_frame [of s]) simp_all
  next
    fix x :: req
    let ?tk = "\<lparr>t_key = key x,
                t_age = snd (hit_times (clock s) (head (fst (the (store s (key x)))))),
                t_phase = AwaitClose\<rparr>"
    assume x: "reqs s r = Some x" and free: "PendingRecache s (key x) = None"
      and P: "PendingRecache (cache_got r a s) = (PendingRecache s)(key x \<mapsto> r)"
      and T: "tasks (cache_got r a s) = (tasks s)(r \<mapsto> ?tk)"
    from x have kr: "key_at s r = Some (key x)" by (simp add: key_at_def)
    have no_task: "tasks s r = None"
    proof (cases "tasks s r")
      case (Some tk')
      from inv_task_key [OF inv Some] kr have "t_key tk' = key x" by simp
      with inv_task [OF inv Some] free show ?thesis by simp
    qed simp
    show ?thesis
    proof (rule recache_invI)
      fix k t assume pend: "PendingRecache (cache_got r a s) k = Some t"
      show "\<exists>tk. tasks (cache_got r a s) t = Some tk \<and> t_key tk = k"
      proof (cases "k = key x")
        case True
        from pend have "t = r" by (simp add: P True)
        moreover have "tasks (cache_got r a s) r = Some ?tk" by (simp add: T)
        ultimately show ?thesis using True by simp
      next
        case False
        with pend have old: "PendingRecache s k = Some t" by (simp add: P)
        from inv_pending [OF inv old] obtain tk where tk: "tasks s t = Some tk" "t_key tk = k"
          by blast
        with no_task have "t \<noteq> r" by auto
        with tk show ?thesis by (simp add: T)
      qed
    next
      fix t tk assume task: "tasks (cache_got r a s) t = Some tk"
      show "PendingRecache (cache_got r a s) (t_key tk) = Some t"
      proof (cases "t = r")
        case True
        from task have "tk = ?tk" by (simp add: T True)
        then show ?thesis by (simp add: P True)
      next
        case False
        with task have old: "tasks s t = Some tk" by (simp add: T)
        from inv_task [OF inv old] free have "t_key tk \<noteq> key x" by auto
        with inv_task [OF inv old] show ?thesis by (simp add: P)
      qed
    next
      fix t tk assume task: "tasks (cache_got r a s) t = Some tk"
      show "key_at (cache_got r a s) t = Some (t_key tk)"
      proof (cases "t = r")
        case True
        from task have "tk = ?tk" by (simp add: T True)
        with kr show ?thesis by (simp add: True)
      next
        case False
        with task have old: "tasks s t = Some tk" by (simp add: T)
        from inv_task_key [OF inv old] show ?thesis by simp
      qed
    next
      fix t k assume "key_at (cache_got r a s) t = Some k"
      then show "t < nreq (cache_got r a s)"
        using inv_fresh [OF inv, of t k] by simp
    qed
  qed
qed

lemma recache_inv_closed:
  assumes inv: "recache_inv s" shows "recache_inv (closed r s)"
proof (rule recache_invI)
  fix k t assume "PendingRecache (closed r s) k = Some t"
  then have "PendingRecache s k = Some t" by simp
  from inv_pending [OF inv this] obtain tk where "tasks s t = Some tk" "t_key tk = k"
    by blast
  with closed_tasks_key [of s t tk r]
  show "\<exists>tk. tasks (closed r s) t = Some tk \<and> t_key tk = k" by auto
next
  fix t tk assume "tasks (closed r s) t = Some tk"
  from closed_tasks [OF this] obtain tk' where tk': "tasks s t = Some tk'" "t_key tk' = t_key tk"
    by blast
  from inv_task [OF inv tk'(1)] tk'(2)
  show "PendingRecache (closed r s) (t_key tk) = Some t" by simp
next
  fix t tk assume "tasks (closed r s) t = Some tk"
  from closed_tasks [OF this] obtain tk' where tk': "tasks s t = Some tk'" "t_key tk' = t_key tk"
    by blast
  from inv_task_key [OF inv tk'(1)] tk'(2)
  show "key_at (closed r s) t = Some (t_key tk)" by simp
next
  fix t k assume "key_at (closed r s) t = Some k"
  then show "t < nreq (closed r s)" using inv_fresh [OF inv, of t k] by simp
qed

lemma replayed_cases:
  "replayed r out s = s
   \<or> (\<exists>tk. tasks s r = Some tk
         \<and> PendingRecache (replayed r out s) = (PendingRecache s)(t_key tk := None)
         \<and> tasks (replayed r out s) = (tasks s)(r := None))"
  by (auto simp: replayed_def Let_def split: option.splits)

lemma recache_inv_replayed:
  assumes inv: "recache_inv s" shows "recache_inv (replayed r out s)"
proof -
  from replayed_cases [of r out s] show ?thesis
  proof (elim disjE exE conjE)
    assume "replayed r out s = s" with inv show ?thesis by simp
  next
    fix tk
    assume tk: "tasks s r = Some tk"
      and P: "PendingRecache (replayed r out s) = (PendingRecache s)(t_key tk := None)"
      and T: "tasks (replayed r out s) = (tasks s)(r := None)"
    show ?thesis
    proof (rule recache_invI)
      fix k t assume pend: "PendingRecache (replayed r out s) k = Some t"
      then have k: "k \<noteq> t_key tk" and old: "PendingRecache s k = Some t"
        by (auto simp: P split: if_splits)
      from inv_pending [OF inv old] obtain tk' where tk': "tasks s t = Some tk'" "t_key tk' = k"
        by blast
      with tk k have "t \<noteq> r" by auto
      with tk' show "\<exists>tk. tasks (replayed r out s) t = Some tk \<and> t_key tk = k"
        by (simp add: T)
    next
      fix t tk' assume task: "tasks (replayed r out s) t = Some tk'"
      then have t: "t \<noteq> r" and old: "tasks s t = Some tk'"
        by (auto simp: T split: if_splits)
      from inv_task [OF inv old] inv_task [OF inv tk] t have "t_key tk' \<noteq> t_key tk" by auto
      with inv_task [OF inv old]
      show "PendingRecache (replayed r out s) (t_key tk') = Some t" by (simp add: P)
    next
      fix t tk' assume task: "tasks (replayed r out s) t = Some tk'"
      then have old: "tasks s t = Some tk'" by (auto simp: T split: if_splits)
      from inv_task_key [OF inv old]
      show "key_at (replayed r out s) t = Some (t_key tk')" by simp
    next
      fix t k assume "key_at (replayed r out s) t = Some k"
      then show "t < nreq (replayed r out s)" using inv_fresh [OF inv, of t k] by simp
    qed
  qed
qed

lemma recache_inv_arrive:
  assumes inv: "recache_inv s" shows "recache_inv (arrive q r0 s)"
proof (rule recache_invI)
  fix k t assume "PendingRecache (arrive q r0 s) k = Some t"
  then show "\<exists>tk. tasks (arrive q r0 s) t = Some tk \<and> t_key tk = k"
    using inv_pending [OF inv, of k t] by simp
next
  fix t tk assume "tasks (arrive q r0 s) t = Some tk"
  then show "PendingRecache (arrive q r0 s) (t_key tk) = Some t"
    using inv_task [OF inv, of t tk] by simp
next
  fix t tk assume "tasks (arrive q r0 s) t = Some tk"
  then have old: "tasks s t = Some tk" by simp
  from inv_fresh [OF inv inv_task_key [OF inv old]] have "t \<noteq> nreq s" by simp
  with inv_task_key [OF inv old] show "key_at (arrive q r0 s) t = Some (t_key tk)" by simp
next
  fix t k assume "key_at (arrive q r0 s) t = Some k"
  then show "t < nreq (arrive q r0 s)"
    using inv_fresh [OF inv, of t] by (auto simp: less_Suc_eq split: if_splits)
qed

lemma recache_inv_step:
  assumes inv: "recache_inv s" shows "recache_inv (step ev s)"
proof (cases ev)
  case (Tick t)
  from inv show ?thesis unfolding Tick
    by (rule recache_inv_frame [of s]) (simp_all add: key_at_def)
next
  case (Arrive q r0)
  from inv show ?thesis by (simp add: Arrive recache_inv_arrive)
next
  case (Settled r)
  from inv show ?thesis unfolding Settled by (rule recache_inv_frame [of s]) simp_all
next
  case (CacheGot r a)
  from inv show ?thesis by (simp add: CacheGot recache_inv_cache_got)
next
  case (Handler r f)
  from inv show ?thesis unfolding Handler by (rule recache_inv_frame [of s]) simp_all
next
  case (Return r e)
  from inv show ?thesis unfolding Return by (rule recache_inv_frame [of s]) simp_all
next
  case (SetDone r)
  from inv show ?thesis unfolding SetDone by (rule recache_inv_frame [of s]) simp_all
next
  case (Close r)
  from inv show ?thesis by (simp add: Close recache_inv_closed)
next
  case (Replayed r out)
  from inv show ?thesis by (simp add: Replayed recache_inv_replayed)
qed

lemma recache_inv_run: "recache_inv (run evs (init ttl))"
proof (induction evs rule: rev_induct)
  case Nil
  show ?case by (simp add: run_def recache_inv_init)
next
  case (snoc ev evs)
  then show ?case by (simp add: run_snoc recache_inv_step)
qed

lemma one_task_per_key:
  assumes "recache_inv s" "tasks s t = Some tk" "tasks s t' = Some tk'" "t_key tk = t_key tk'"
  shows "t = t'"
proof -
  from inv_task [OF assms(1,2)] inv_task [OF assms(1,3)] assms(4) show ?thesis by simp
qed

lemma pending_suppresses:
  assumes "reqs s r = Some x" "PendingRecache s (key x) \<noteq> None"
  shows "PendingRecache (cache_got r a s) = PendingRecache s \<and> tasks (cache_got r a s) = tasks s"
  using assms cache_got_recache [of r a s] by auto

lemma replayed_removes:
  assumes "recache_inv s" "tasks s t = Some tk"
    "t_phase tk = Replaying \<or> (\<exists>e. out = ReplayError e)"
  shows "PendingRecache (replayed t out s) (t_key tk) = None \<and> tasks (replayed t out s) t = None"
  using assms by (cases out) (auto simp: replayed_def Let_def)

text \<open>
  Claim C6.  In every state the middleware can reach, whatever the requests and their
  interleaving: no two live refresh tasks have the same key; a key is registered in
  \<^verbatim>\<open>PendingRecache\<close> exactly when a live task has it; a cache read by a request whose
  key is registered schedules nothing; and when the chain of a task settles, be it
  with a status below 500, with a status from 500 on, or with an error, the task is
  gone and its key is no longer registered.
\<close>

theorem C6_single_refresh:
  "(\<forall>t t' tk tk'. tasks (run evs (init ttl)) t = Some tk \<and> tasks (run evs (init ttl)) t' = Some tk'
        \<and> t_key tk = t_key tk' \<longrightarrow> t = t')
   \<and> (\<forall>k. PendingRecache (run evs (init ttl)) k \<noteq> None
        \<longleftrightarrow> (\<exists>t tk. tasks (run evs (init ttl)) t = Some tk \<and> t_key tk = k))
   \<and> (\<forall>r x a. reqs (run evs (init ttl)) r = Some x
        \<and> PendingRecache (run evs (init ttl)) (key x) \<noteq> None
        \<longrightarrow> PendingRecache (step (CacheGot r a) (run evs (init ttl)))
              = PendingRecache (run evs (init ttl))
          \<and> tasks (step (CacheGot r a) (run evs (init ttl))) = tasks (run evs (init ttl)))
   \<and> (\<forall>t tk out. tasks (run evs (init ttl)) t = Some tk
        \<and> (t_phase tk = Replaying \<or> (\<exists>e. out = ReplayError e))
        \<longrightarrow> PendingRecache (step (Replayed t out) (run evs (init ttl))) (t_key tk) = None
          \<and> tasks (step (Replayed t out) (run evs (init ttl))) t = None)"
proof -
  let ?s = "run evs (init ttl)"
  have inv: "recache_inv ?s" by (rule recache_inv_run)
  have one: "\<forall>t t' tk tk'. tasks ?s t = Some tk \<and> tasks ?s t' = Some tk'
        \<and> t_key tk = t_key tk' \<longrightarrow> t = t'"
    using one_task_per_key [OF inv] by blast
  have agree: "\<forall>k. PendingRecache ?s k \<noteq> None
        \<longleftrightarrow> (\<exists>t tk. tasks ?s t = Some tk \<and> t_key tk = k)"
    using inv_pending [OF inv] inv_task [OF inv] by (metis option.distinct(1) not_None_eq)
  have suppress: "\<forall>r x a. reqs ?s r = Some x \<and> PendingRecache ?s (key x) \<noteq> None
        \<longrightarrow> PendingRecache (step (CacheGot r a) ?s) = PendingRecache ?s
          \<and> tasks (step (CacheGot r a) ?s) = tasks ?s"
    using pending_suppresses by simp
  have remove: "\<forall>t tk out. tasks ?s t = Some tk
        \<and> (t_phase tk = Replaying \<or> (\<exists>e. out = ReplayError e))
        \<longrightarrow> PendingRecache (step (Replayed t out) ?s) (t_key tk) = None
          \<and> tasks (step (Replayed t out) ?s) t = None"
    using replayed_removes [OF inv] by simp
  from one agree suppress remove show ?thesis by blast
qed

theorem C6_single_refresh_witness:
  "PendingRecache (run refresh_pending (init 100)) items_key = Some 1
   \<and> tasks (step (CacheGot 2 True) (run refresh_pending (init 100))) 2 = None
   \<and> PendingRecache (step (Replayed 1 (ReplayStatus 503)) (run refresh_replaying (init 100)))
        items_key = None"
proof -
  let ?s = "run refresh_pending (init 100)"
  let ?s' = "run refresh_replaying (init 100)"
  have pend: "PendingRecache ?s items_key = Some 1" by code_simp
  have k2: "key_at ?s 2 = Some items_key" by code_simp
  then obtain x where x: "reqs ?s 2 = Some x" "key x = items_key"
    by (auto simp: key_at_def)
  have none: "tasks ?s 2 = None" by code_simp
  have task: "tasks ?s' 1 = Some \<lparr>t_key = items_key, t_age = 60, t_phase = Replaying\<rparr>"
    by code_simp
  from C6_single_refresh [of refresh_pending 100] x pend
  have "tasks (step (CacheGot 2 True) ?s) = tasks ?s" by auto
  with none have a: "tasks (step (CacheGot 2 True) ?s) 2 = None" by simp
  from C6_single_refresh [of refresh_replaying 100] task
  have b: "PendingRecache (step (Replayed 1 (ReplayStatus 503)) ?s') items_key = None"
    by (metis task.select_convs(1,3))
  from pend a b show ?thesis by blast
qed

subsection \<open>When a refresh is scheduled\<close>

text \<open>
  What serving a hit is: on a real response that has sent no header, \<^verbatim>\<open>writeHead\<close> with
  the status, the message and the headers of lines 66-81, then \<^verbatim>\<open>end\<close> with the body.
\<close>

lemma hit_served:
  assumes "reqs s r = Some x" "pc x = AwaitGet waited" "store s (key x) = Some (e, ttl)"
    "\<not> noCache (opts x)" "\<not> recache (res x)" "\<not> headersSent (res x)"
  shows "pc_of (step (CacheGot r True) s) r = Some Served"
    "wire_of (step (CacheGot r True) s) r
       = [W_writeHead (status (head e))
            (if message (head e) = [] then None else Some (message (head e)))
            (Obj ([(''content-type'', Some (type_h (head e))),
                   (''content-length'', Some (length_h (head e))),
                   (''content-encoding'', Some (encoding (head e))),
                   (''x-cache'', Some ''hit''), (''x-cache-key'', Some (key x))]
                  @ (if iat (head e) \<noteq> 0 \<and> exp (head e) \<noteq> 0
                     then [(''age'', Some (toString (clock s div 1000 - iat (head e)))),
                           (''cache-control'',
                            Some (cache_control_value (scope x) (exp (head e) - iat (head e))))]
                     else []))),
          W_end (Some (body e))]"
  using assms
  by (auto simp: cache_got_def schedule_recache_def Let_def pc_of_def wire_of_def
        header_sent_def headersSent_def respond_hit_def original_writeHead_def hit_headers_def)

text \<open>
  Claim C2, as stated: a refresh is scheduled after a hit exactly when none is pending
  and the remaining lifetime of the entry is negative or its age exceeds 900 seconds.
  An entry issued at second 1000 with a lifetime of 100 seconds and read at second 1060
  has 40 seconds left and is 60 seconds old; no refresh is pending, and one is
  scheduled.  An entry with a lifetime of 2000 seconds read at the age of 1000 seconds
  by a request that had waited for the pending origin call is served, no refresh is
  pending, and none is scheduled.
\<close>

theorem C2_counterexample:
  "(PendingRecache (run miss_then_arrival (init 100)) items_key = None
     \<and> pc_of (run miss_then_arrival (init 100)) 1 = Some (AwaitGet False)
     \<and> map_option (hit_times (clock (run miss_then_arrival (init 100))))
          (stored_head (run miss_then_arrival (init 100)) items_key) = Some (40, 60)
     \<and> \<not> ((40::int) < 0 \<or> (60::int) > 900)
     \<and> PendingRecache (step (CacheGot 1 True) (run miss_then_arrival (init 100))) items_key
         = Some 1)
   \<and> (PendingRecache (run waited_hit (init 2000)) items_key = None
     \<and> pc_of (run waited_hit (init 2000)) 1 = Some (AwaitGet True)
     \<and> map_option (hit_times (clock (run waited_hit (init 2000))))
          (stored_head (run waited_hit (init 2000)) items_key) = Some (1000, 1000)
     \<and> (1000::int) > 900
     \<and> pc_of (step (CacheGot 1 True) (run waited_hit (init 2000))) 1 = Some Served
     \<and> PendingRecache (step (CacheGot 1 True) (run waited_hit (init 2000))) items_key
         = None)"
  by code_simp

text \<open>
  Claim C2, amended.  A cache hit is served on a real response that has sent no header;
  otherwise, and so on the proxy of a refresh, line 82 throws, neither line 83 nor line
  95 is reached, and nothing is scheduled.  When a hit is served to a request that did
  not wait for a pending origin call, a refresh task is scheduled for its key if and
  only if no refresh is pending for the key and the remaining lifetime is smaller than
  the age or the age exceeds 900 seconds, where age is the current second minus \<open>iat\<close>
  and the remaining lifetime is \<open>exp - iat - age\<close>, both taken as 0 when the entry lacks
  \<open>iat\<close> or \<open>exp\<close>.  A hit served after waiting for a pending origin call schedules
  nothing.
\<close>

theorem C2_refresh_scheduled:
  assumes "reqs s r = Some x" "pc x = AwaitGet waited" "store s (key x) = Some (e, ttl)"
    "\<not> noCache (opts x)"
  shows "(\<not> recache (res x) \<and> \<not> headersSent (res x) \<longrightarrow>
            (\<not> waited \<and> PendingRecache s (key x) = None
               \<and> (fst (hit_times (clock s) (head e)) < snd (hit_times (clock s) (head e))
                    \<or> snd (hit_times (clock s) (head e)) > 900)
             \<longrightarrow> PendingRecache (step (CacheGot r True) s) = (PendingRecache s)(key x \<mapsto> r)
               \<and> tasks (step (CacheGot r True) s)
                   = (tasks s)(r \<mapsto> \<lparr>t_key = key x,
                                        t_age = snd (hit_times (clock s) (head e)),
                                        t_phase = AwaitClose\<rparr>))
          \<and> (\<not> (\<not> waited \<and> PendingRecache s (key x) = None
                 \<and> (fst (hit_times (clock s) (head e)) < snd (hit_times (clock s) (head e))
                      \<or> snd (hit_times (clock s) (head e)) > 900))
             \<longrightarrow> PendingRecache (step (CacheGot r True) s) = PendingRecache s
               \<and> tasks (step (CacheGot r True) s) = tasks s)
          \<and> pc_of (step (CacheGot r True) s) r = Some Served
          \<and> wire_of (step (CacheGot r True) s) r
              = [W_writeHead (status (head e))
                   (if message (head e) = [] then None else Some (message (head e)))
                   (Obj ([(''content-type'', Some (type_h (head e))),
                          (''content-length'', Some (length_h (head e))),
                          (''content-encoding'', Some (encoding (head e))),
                          (''x-cache'', Some ''hit''), (''x-cache-key'', Some (key x))]
                         @ (if iat (head e) \<noteq> 0 \<and> exp (head e) \<noteq> 0
                            then [(''age'', Some (toString (clock s div 1000 - iat (head e)))),
                                  (''cache-control'',
                                   Some (cache_control_value (scope x)
                                           (exp (head e) - iat (head e))))]
                            else []))),
                 W_end (Some (body e))])
       \<and> (recache (res x) \<or> headersSent (res x) \<longrightarrow>
            pc_of (step (CacheGot r True) s) r = Some (Failed ''ERR_HTTP_HEADERS_SENT'')
          \<and> wire_of (step (CacheGot r True) s) r = wire (res x)
          \<and> PendingRecache (step (CacheGot r True) s) = PendingRecache s
          \<and> tasks (step (CacheGot r True) s) = tasks s)
       \<and> (iat (head e) \<noteq> 0 \<and> exp (head e) \<noteq> 0
          \<longrightarrow> hit_times (clock s) (head e)
              = (exp (head e) - iat (head e) - (clock s div 1000 - iat (head e)),
                 clock s div 1000 - iat (head e)))
       \<and> (iat (head e) = 0 \<or> exp (head e) = 0 \<longrightarrow> hit_times (clock s) (head e) = (0, 0))"
proof -
  have sched: "\<not> recache (res x) \<and> \<not> headersSent (res x) \<longrightarrow>
          (\<not> waited \<and> PendingRecache s (key x) = None
            \<and> (fst (hit_times (clock s) (head e)) < snd (hit_times (clock s) (head e))
                 \<or> snd (hit_times (clock s) (head e)) > 900)
          \<longrightarrow> PendingRecache (step (CacheGot r True) s) = (PendingRecache s)(key x \<mapsto> r)
            \<and> tasks (step (CacheGot r True) s)
                = (tasks s)(r \<mapsto> \<lparr>t_key = key x,
                                     t_age = snd (hit_times (clock s) (head e)),
                                     t_phase = AwaitClose\<rparr>))"
    using assms
    by (auto simp: cache_got_def schedule_recache_def recacheable_def Let_def
          header_sent_def headersSent_def)
  have none: "\<not> recache (res x) \<and> \<not> headersSent (res x) \<longrightarrow>
          (\<not> (\<not> waited \<and> PendingRecache s (key x) = None
              \<and> (fst (hit_times (clock s) (head e)) < snd (hit_times (clock s) (head e))
                   \<or> snd (hit_times (clock s) (head e)) > 900))
          \<longrightarrow> PendingRecache (step (CacheGot r True) s) = PendingRecache s
            \<and> tasks (step (CacheGot r True) s) = tasks s)"
    using assms
    by (auto simp: cache_got_def schedule_recache_def recacheable_def Let_def
          header_sent_def headersSent_def)
  have served: "\<not> recache (res x) \<and> \<not> headersSent (res x) \<longrightarrow>
          pc_of (step (CacheGot r True) s) r = Some Served
          \<and> wire_of (step (CacheGot r True) s) r
              = [W_writeHead (status (head e))
                   (if message (head e) = [] then None else Some (message (head e)))
                   (Obj ([(''content-type'', Some (type_h (head e))),
                          (''content-length'', Some (length_h (head e))),
                          (''content-encoding'', Some (encoding (head e))),
                          (''x-cache'', Some ''hit''), (''x-cache-key'', Some (key x))]
                         @ (if iat (head e) \<noteq> 0 \<and> exp (head e) \<noteq> 0
                            then [(''age'', Some (toString (clock s div 1000 - iat (head e)))),
                                  (''cache-control'',
                                   Some (cache_control_value (scope x)
                                           (exp (head e) - iat (head e))))]
                            else []))),
                 W_end (Some (body e))]"
    using hit_served [OF assms] by blast
  have thrown: "recache (res x) \<or> headersSent (res x) \<longrightarrow>
            pc_of (step (CacheGot r True) s) r = Some (Failed ''ERR_HTTP_HEADERS_SENT'')
          \<and> wire_of (step (CacheGot r True) s) r = wire (res x)
          \<and> PendingRecache (step (CacheGot r True) s) = PendingRecache s
          \<and> tasks (step (CacheGot r True) s) = tasks s"
    using assms
    by (auto simp: cache_got_def Let_def header_sent_def headersSent_def pc_of_def wire_of_def)
  have times: "iat (head e) \<noteq> 0 \<and> exp (head e) \<noteq> 0
          \<longrightarrow> hit_times (clock s) (head e)
              = (exp (head e) - iat (head e) - (clock s div 1000 - iat (head e)),
                 clock s div 1000 - iat (head e))"
    "iat (head e) = 0 \<or> exp (head e) = 0 \<longrightarrow> hit_times (clock s) (head e) = (0, 0)"
    by (auto simp: hit_times_def Let_def)
  from sched none served thrown times show ?thesis by blast
qed

theorem C2_refresh_scheduled_witness:
  "PendingRecache (run miss_then_arrival (init 100)) items_key = None
   \<and> PendingRecache (step (CacheGot 1 True) (run miss_then_arrival (init 100))) items_key
       = Some 1
   \<and> PendingRecache (step (CacheGot 2 True) (run refresh_pending (init 100)))
       = PendingRecache (run refresh_pending (init 100))"
proof -
  let ?s = "run miss_then_arrival (init 100)"
  let ?s' = "run refresh_pending (init 100)"
  have free: "PendingRecache ?s items_key = None" by code_simp
  have "map_option (\<lambda>y. (pc y, noCache (opts y), recache (res y), headersSent (res y)))
          (reqs ?s 1) = Some (AwaitGet False, False, False, False)"
    by code_simp
  then obtain x where x: "reqs ?s 1 = Some x" and p: "pc x = AwaitGet False"
    and f: "\<not> noCache (opts x)" "\<not> recache (res x)" "\<not> headersSent (res x)"
    by auto
  have "key_at ?s 1 = Some items_key" by code_simp
  with x have k: "key x = items_key" by (simp add: key_at_def)
  have t: "map_option (hit_times (clock ?s)) (stored_head ?s items_key) = Some (40, 60)"
    by code_simp
  then obtain e ttl where st: "store ?s (key x) = Some (e, ttl)"
    and ht: "hit_times (clock ?s) (head e) = (40, 60)"
    by (auto simp: stored_head_def k split: option.splits)
  from C2_refresh_scheduled [OF x p st f(1), THEN conjunct1] f free ht k
  have a: "PendingRecache (step (CacheGot 1 True) ?s) = (PendingRecache ?s)(items_key \<mapsto> 1)"
    by simp
  have "map_option (\<lambda>y. (pc y, noCache (opts y), recache (res y), headersSent (res y)))
          (reqs ?s' 2) = Some (AwaitGet False, False, False, False)"
    by code_simp
  then obtain y where y: "reqs ?s' 2 = Some y" and py: "pc y = AwaitGet False"
    and fy: "\<not> noCache (opts y)" "\<not> recache (res y)" "\<not> headersSent (res y)"
    by auto
  have "key_at ?s' 2 = Some items_key" by code_simp
  with y have ky: "key y = items_key" by (simp add: key_at_def)
  have "stored_head ?s' items_key \<noteq> None" by code_simp
  then obtain e' ttl' where st': "store ?s' (key y) = Some (e', ttl')"
    by (auto simp: stored_head_def ky split: option.splits)
  have busy: "PendingRecache ?s' items_key = Some 1" by code_simp
  from C2_refresh_scheduled [OF y py st' fy(1), THEN conjunct1] fy busy ky
  have b: "PendingRecache (step (CacheGot 2 True) ?s') = PendingRecache ?s'"
    by simp
  from free a b show ?thesis by simp
qed

section \<open>SingleFlightRegistry\<close>

text \<open>
  Claim C1: of concurrent requests for one uncached key, at most one runs the origin
  handler at a time.  In the schedule \<open>race\<close> both requests test \<^verbatim>\<open>PendingRequest[key]\<close>
  (line 86) before either has registered (line 258), because the \<^verbatim>\<open>await\<close> of line 93
  lies between the test and the registration.  Both cache reads miss, both requests run
  the handler, and the registration of the second has replaced that of the first.
\<close>

theorem C1_concurrent_handlers:
  "pc_of (run race (init 60)) 0 = Some Running \<and> pc_of (run race (init 60)) 1 = Some Running
   \<and> key_at (run race (init 60)) 0 = Some items_key
   \<and> key_at (run race (init 60)) 1 = Some items_key
   \<and> stored_head (run race (init 60)) items_key = None
   \<and> PendingRequest (run race (init 60)) items_key = Some 1"
  by code_simp

theorem C1_concurrent_handlers_witness:
  "pc_of (run race (init 60)) 0 = pc_of (run race (init 60)) 1"
  using C1_concurrent_handlers by simp

lemma arrive_finds_pending:
  "method q = ''GET'' \<Longrightarrow> PendingRequest s (cache_key q) = Some w
     \<Longrightarrow> pc_of (step (Arrive q r0) s) (nreq s) = Some (AwaitPending w)"
  by (simp add: arrive_def Let_def pc_of_def)

lemma settled_released:
  assumes "reqs s r = Some x" "pc x = AwaitPending w" "promise_resolved s w"
  shows "step (Settled r) s = put r (x\<lparr>pc := AwaitGet True\<rparr>) s"
  using assms by (simp add: settled_def)

lemma settled_suspended:
  assumes "reqs s r = Some x" "pc x = AwaitPending w" "\<not> promise_resolved s w"
  shows "step (Settled r) s = s"
  using assms by (simp add: settled_def)

lemma waited_miss:
  assumes "reqs s r = Some x" "pc x = AwaitGet waited"
    "store s (key x) = None \<or> noCache (opts x) \<or> \<not> answer"
  shows "pc_of (step (CacheGot r answer) s) r = Some Running"
  using assms by (auto simp: cache_got_def start_origin_def Let_def pc_of_def)

text \<open>
  The promise of line 258 is fulfilled by \<^verbatim>\<open>finish\<close>, which the end of the response
  emits whatever became of the handler: at once when the status is outside [200, 500).
\<close>

lemma failed_origin_fulfils:
  assumes "reqs s w = Some y" "patched (pc y)" "registered y" "\<not> responded y"
    "\<not> (200 \<le> (if finalStatus (cap y) \<noteq> 0 then finalStatus (cap y) else statusCode (res y))
        \<and> (if finalStatus (cap y) \<noteq> 0 then finalStatus (cap y) else statusCode (res y)) < 500)"
  shows "promise_resolved (step (Handler w (End d)) s) w"
    "console (step (Handler w (End d)) s) = console s"
  using assms
  by (auto simp: handler_def on_finish_def emit_finish_def patched_end_def Let_def
        promise_resolved_def put_def split: option.splits)

lemma stored_origin_fulfils:
  assumes "reqs s w = Some y" "registered y" "setting y"
  shows "promise_resolved (step (SetDone w) s) w"
    "console (step (SetDone w) s) = console s"
  using assms
  by (auto simp: set_done_def emit_finish_def promise_resolved_def put_def)

text \<open>
  Claim C8, as stated: a waiting request logs the failure of the origin call it waited
  for.  In the schedule \<open>failed_origin\<close> the second request waits for the call of the
  first, whose handler throws; the response of the first is ended with status 500 and
  the promise is fulfilled.  In \<open>failed_origin_released\<close> the second request is then
  released and goes on to its cache read with nothing written to the console.  The
  read misses, and the second request runs the handler.
\<close>

theorem C8_counterexample:
  "pc_of (run failed_origin (init 100)) 1 = Some (AwaitPending 0)
   \<and> pc_of (run failed_origin (init 100)) 0 = Some (Threw ''boom'')
   \<and> final_status_of (run failed_origin (init 100)) 0 = Some 500
   \<and> promise_resolved (run failed_origin (init 100)) 0
   \<and> pc_of (run failed_origin_released (init 100)) 1 = Some (AwaitGet True)
   \<and> console (run failed_origin_released (init 100)) = []
   \<and> pc_of (step (CacheGot 1 True) (run failed_origin_released (init 100))) 1
       = Some Running"
  by code_simp

text \<open>
  Claim C8, amended.  A request that arrives while \<^verbatim>\<open>PendingRequest\<close> holds a promise for
  its key awaits that promise and stays suspended until it is fulfilled.  The promise
  is fulfilled when the response of the origin call has ended (and the store write
  started by that end, if any, has settled), also when that call failed: its handler
  threw, or it answered with a status outside [200, 500).  It is never rejected, so
  the waiting request is told nothing of the failure: nothing is thrown into it and
  nothing is logged.  Once released the request reads the cache again.  A hit is
  served, on a real response that has sent no header, by \<^verbatim>\<open>writeHead\<close> with the status
  and headers of the entry and \<^verbatim>\<open>end\<close> with its body, and the request returns; on a
  miss the request runs the origin handler itself.
\<close>

theorem C8_waiter:
  assumes "reqs s r = Some x" "pc x = AwaitPending w"
  shows "(\<not> promise_resolved s w \<longrightarrow> step (Settled r) s = s)
       \<and> (promise_resolved s w \<longrightarrow>
            pc_of (step (Settled r) s) r = Some (AwaitGet True)
          \<and> console (step (Settled r) s) = console s
          \<and> (\<forall>e ttl. store s (key x) = Some (e, ttl) \<and> \<not> noCache (opts x)
                     \<and> \<not> recache (res x) \<and> \<not> headersSent (res x) \<longrightarrow>
               pc_of (step (CacheGot r True) (step (Settled r) s)) r = Some Served
             \<and> wire_of (step (CacheGot r True) (step (Settled r) s)) r
                 = [W_writeHead (status (head e))
                      (if message (head e) = [] then None else Some (message (head e)))
                      (Obj ([(''content-type'', Some (type_h (head e))),
                             (''content-length'', Some (length_h (head e))),
                             (''content-encoding'', Some (encoding (head e))),
                             (''x-cache'', Some ''hit''), (''x-cache-key'', Some (key x))]
                            @ (if iat (head e) \<noteq> 0 \<and> exp (head e) \<noteq> 0
                               then [(''age'',
                                      Some (toString (clock s div 1000 - iat (head e)))),
                                     (''cache-control'',
                                      Some (cache_control_value (scope x)
                                              (exp (head e) - iat (head e))))]
                               else []))),
                    W_end (Some (body e))])
          \<and> (\<forall>answer. store s (key x) = None \<or> noCache (opts x) \<or> \<not> answer \<longrightarrow>
               pc_of (step (CacheGot r answer) (step (Settled r) s)) r = Some Running))
       \<and> (\<forall>y d. reqs s w = Some y \<and> patched (pc y) \<and> registered y \<and> \<not> responded y
                \<and> \<not> (200 \<le> (if finalStatus (cap y) \<noteq> 0 then finalStatus (cap y)
                              else statusCode (res y))
                     \<and> (if finalStatus (cap y) \<noteq> 0 then finalStatus (cap y)
                         else statusCode (res y)) < 500) \<longrightarrow>
             promise_resolved (step (Handler w (End d)) s) w
           \<and> console (step (Handler w (End d)) s) = console s)
       \<and> (\<forall>y. reqs s w = Some y \<and> registered y \<and> setting y \<longrightarrow>
             promise_resolved (step (SetDone w) s) w
           \<and> console (step (SetDone w) s) = console s)
       \<and> (\<forall>q r0 w'. method q = ''GET'' \<and> PendingRequest s (cache_key q) = Some w' \<longrightarrow>
             pc_of (step (Arrive q r0) s) (nreq s) = Some (AwaitPending w'))"
proof -
  let ?x = "x\<lparr>pc := AwaitGet True\<rparr>"
  let ?s = "put r ?x s"
  have x': "reqs ?s r = Some ?x" "pc ?x = AwaitGet True" by (simp_all add: put_def)
  have same: "store ?s = store s" "clock ?s = clock s" "key ?x = key x" "opts ?x = opts x"
    "res ?x = res x" "scope ?x = scope x"
    by simp_all
  have susp: "\<not> promise_resolved s w \<longrightarrow> step (Settled r) s = s"
    using settled_suspended [OF assms] by blast
  have rel: "promise_resolved s w \<longrightarrow>
            pc_of (step (Settled r) s) r = Some (AwaitGet True)
          \<and> console (step (Settled r) s) = console s"
    using settled_released [OF assms] by (auto simp: pc_of_def put_def)
  have hit: "promise_resolved s w \<longrightarrow>
       (\<forall>e ttl. store s (key x) = Some (e, ttl) \<and> \<not> noCache (opts x)
                     \<and> \<not> recache (res x) \<and> \<not> headersSent (res x) \<longrightarrow>
               pc_of (step (CacheGot r True) (step (Settled r) s)) r = Some Served
             \<and> wire_of (step (CacheGot r True) (step (Settled r) s)) r
                 = [W_writeHead (status (head e))
                      (if message (head e) = [] then None else Some (message (head e)))
                      (Obj ([(''content-type'', Some (type_h (head e))),
                             (''content-length'', Some (length_h (head e))),
                             (''content-encoding'', Some (encoding (head e))),
                             (''x-cache'', Some ''hit''), (''x-cache-key'', Some (key x))]
                            @ (if iat (head e) \<noteq> 0 \<and> exp (head e) \<noteq> 0
                               then [(''age'',
                                      Some (toString (clock s div 1000 - iat (head e)))),
                                     (''cache-control'',
                                      Some (cache_control_value (scope x)
                                              (exp (head e) - iat (head e))))]
                               else []))),
                    W_end (Some (body e))])"
  proof (intro impI allI, elim conjE)
    fix e ttl
    assume res: "promise_resolved s w" and st: "store s (key x) = Some (e, ttl)"
      and f: "\<not> noCache (opts x)" "\<not> recache (res x)" "\<not> headersSent (res x)"
    from st have st': "store ?s (key ?x) = Some (e, ttl)" by simp
    from f have f': "\<not> noCache (opts ?x)" "\<not> recache (res ?x)" "\<not> headersSent (res ?x)"
      by simp_all
    from hit_served [OF x' st' f'] settled_released [OF assms res]
    show "pc_of (step (CacheGot r True) (step (Settled r) s)) r = Some Served
        \<and> wire_of (step (CacheGot r True) (step (Settled r) s)) r
            = [W_writeHead (status (head e))
                 (if message (head e) = [] then None else Some (message (head e)))
                 (Obj ([(''content-type'', Some (type_h (head e))),
                        (''content-length'', Some (length_h (head e))),
                        (''content-encoding'', Some (encoding (head e))),
                        (''x-cache'', Some ''hit''), (''x-cache-key'', Some (key x))]
                       @ (if iat (head e) \<noteq> 0 \<and> exp (head e) \<noteq> 0
                          then [(''age'',
                                 Some (toString (clock s div 1000 - iat (head e)))),
                                (''cache-control'',
                                 Some (cache_control_value (scope x)
                                         (exp (head e) - iat (head e))))]
                          else []))),
               W_end (Some (body e))]"
      by simp
  qed
  have miss: "promise_resolved s w \<longrightarrow>
       (\<forall>answer. store s (key x) = None \<or> noCache (opts x) \<or> \<not> answer \<longrightarrow>
               pc_of (step (CacheGot r answer) (step (Settled r) s)) r = Some Running)"
  proof (intro impI allI)
    fix answer
    assume res: "promise_resolved s w"
      and m: "store s (key x) = None \<or> noCache (opts x) \<or> \<not> answer"
    from m have m': "store ?s (key ?x) = None \<or> noCache (opts ?x) \<or> \<not> answer" by simp
    from waited_miss [OF x' m'] settled_released [OF assms res]
    show "pc_of (step (CacheGot r answer) (step (Settled r) s)) r = Some Running" by simp
  qed
  have fail: "\<forall>y d. reqs s w = Some y \<and> patched (pc y) \<and> registered y \<and> \<not> responded y
                \<and> \<not> (200 \<le> (if finalStatus (cap y) \<noteq> 0 then finalStatus (cap y)
                              else statusCode (res y))
                     \<and> (if finalStatus (cap y) \<noteq> 0 then finalStatus (cap y)
                         else statusCode (res y)) < 500) \<longrightarrow>
             promise_resolved (step (Handler w (End d)) s) w
           \<and> console (step (Handler w (End d)) s) = console s"
    using failed_origin_fulfils [of s w] by blast
  have stored: "\<forall>y. reqs s w = Some y \<and> registered y \<and> setting y \<longrightarrow>
             promise_resolved (step (SetDone w) s) w
           \<and> console (step (SetDone w) s) = console s"
    using stored_origin_fulfils [of s w] by blast
  have arr: "\<forall>q r0 w'. method q = ''GET'' \<and> PendingRequest s (cache_key q) = Some w' \<longrightarrow>
             pc_of (step (Arrive q r0) s) (nreq s) = Some (AwaitPending w')"
    using arrive_finds_pending [of _ s] by blast
  from susp rel hit miss fail stored arr show ?thesis by blast
qed

theorem C8_waiter_witness:
  "pc_of (run waiting (init 100)) 1 = Some (AwaitPending 0)
   \<and> promise_resolved (run waiting (init 100)) 0
   \<and> pc_of (step (Settled 1) (run waiting (init 100))) 1 = Some (AwaitGet True)
   \<and> console (step (Settled 1) (run waiting (init 100))) = console (run waiting (init 100))
   \<and> pc_of (step (CacheGot 1 True) (step (Settled 1) (run waiting (init 100)))) 1
       = Some Served
   \<and> (\<exists>h. wire_of (step (CacheGot 1 True) (step (Settled 1) (run waiting (init 100)))) 1
            = [W_writeHead 200 None h, W_end (Some ''hello'')])
   \<and> pc_of (step (CacheGot 1 False) (step (Settled 1) (run waiting (init 100)))) 1
       = Some Running"
proof -
  let ?s = "run waiting (init 100)"
  have pcs: "pc_of ?s 1 = Some (AwaitPending 0)" by code_simp
  have "map_option (\<lambda>y. (pc y, noCache (opts y), recache (res y), headersSent (res y)))
          (reqs ?s 1) = Some (AwaitPending 0, False, False, False)"
    by code_simp
  then obtain x where x: "reqs ?s 1 = Some x" and p: "pc x = AwaitPending 0"
    and f: "\<not> noCache (opts x)" "\<not> recache (res x)" "\<not> headersSent (res x)"
    by auto
  have res: "promise_resolved ?s 0" by code_simp
  have "key_at ?s 1 = Some items_key" by code_simp
  with x have k: "key x = items_key" by (simp add: key_at_def)
  have "map_option (\<lambda>v. (status (head (fst v)), message (head (fst v)), body (fst v)))
          (store ?s items_key) = Some (200, [], ''hello'')"
    by code_simp
  then obtain e ttl where st: "store ?s (key x) = Some (e, ttl)"
    and ev: "status (head e) = 200" "message (head e) = []" "body e = ''hello''"
    by (auto simp: k)
  note w = C8_waiter [OF x p]
  from w res have a: "pc_of (step (Settled 1) ?s) 1 = Some (AwaitGet True)"
    "console (step (Settled 1) ?s) = console ?s"
    by blast+
  from w res st f
  have b: "pc_of (step (CacheGot 1 True) (step (Settled 1) ?s)) 1 = Some Served"
    by blast
  from w res st f
  have "wire_of (step (CacheGot 1 True) (step (Settled 1) ?s)) 1
          = [W_writeHead (status (head e))
               (if message (head e) = [] then None else Some (message (head e)))
               (Obj ([(''content-type'', Some (type_h (head e))),
                      (''content-length'', Some (length_h (head e))),
                      (''content-encoding'', Some (encoding (head e))),
                      (''x-cache'', Some ''hit''), (''x-cache-key'', Some (key x))]
                     @ (if iat (head e) \<noteq> 0 \<and> exp (head e) \<noteq> 0
                        then [(''age'',
                               Some (toString (clock ?s div 1000 - iat (head e)))),
                              (''cache-control'',
                               Some (cache_control_value (scope x)
                                       (exp (head e) - iat (head e))))]
                        else []))),
             W_end (Some (body e))]"
    by blast
  then have c: "\<exists>h. wire_of (step (CacheGot 1 True) (step (Settled 1) ?s)) 1
            = [W_writeHead 200 None h, W_end (Some ''hello'')]"
    by (simp add: ev)
  from w res
  have d: "pc_of (step (CacheGot 1 False) (step (Settled 1) ?s)) 1 = Some Running"
    by blast
  from pcs res a b c d show ?thesis by blast
qed

subsection \<open>Requests with a max-age override\<close>

lemma emit_finish_reqs_other: "t \<noteq> r \<Longrightarrow> reqs (emit_finish r s) t = reqs s t"
  by (simp add: emit_finish_def split: option.splits)

lemma on_finish_reqs_other: "t \<noteq> r \<Longrightarrow> reqs (on_finish r s) t = reqs s t"
  by (simp add: on_finish_def emit_finish_reqs_other split: option.splits)

lemma step_reqs_other:
  "actor ev = Some r \<Longrightarrow> t \<noteq> r \<Longrightarrow> reqs (step ev s) t = reqs s t"
  by (cases ev)
     (auto simp: settled_def cache_got_def handler_def returned_def set_done_def closed_def
        replayed_def start_origin_def schedule_recache_def Let_def emit_finish_reqs_other
        on_finish_reqs_other
      split: option.splits pc.splits op.splits)

lemma step_nreq: "actor ev = Some r \<Longrightarrow> nreq (step ev s) = nreq s"
  by (cases ev) auto

lemma emit_finish_unregistered:
  "unregistered r s \<Longrightarrow> emit_finish r s = s"
  by (auto simp: unregistered_def emit_finish_def split: option.splits)

lemma emit_finish_keeps:
  "unregistered r s \<Longrightarrow> unregistered r (emit_finish t s)"
  by (auto simp: unregistered_def emit_finish_def split: option.splits)

lemma put_keeps:
  "unregistered r s \<Longrightarrow> (t = r \<Longrightarrow> maxAge_truthy (opts x) \<and> \<not> registered x)
     \<Longrightarrow> unregistered r (put t x s)"
  by (auto simp: unregistered_def split: option.splits)

lemma on_finish_keeps:
  "unregistered r s \<Longrightarrow> unregistered r (on_finish t s)"
  by (auto simp: on_finish_def unregistered_def emit_finish_def split: option.splits)

lemma unregistered_own:
  "unregistered r s \<Longrightarrow> reqs s r = Some x \<Longrightarrow> maxAge_truthy (opts x) \<and> \<not> registered x"
  by (simp add: unregistered_def)

lemma unregistered_step:
  assumes "unregistered r s" shows "unregistered r (step ev s)"
proof (cases ev)
  case (Tick t)
  with assms show ?thesis by (auto simp: unregistered_def split: option.splits)
next
  case (Arrive q r0)
  with assms show ?thesis
    by (auto simp: unregistered_def arrive_def Let_def split: option.splits)
next
  case (Settled t)
  with assms show ?thesis
    by (auto simp: settled_def unregistered_def split: option.splits pc.splits)
next
  case (CacheGot t a)
  with assms show ?thesis
    by (auto simp: cache_got_def start_origin_def schedule_recache_def unregistered_def Let_def
          split: option.splits pc.splits)
next
  case (Handler t f)
  show ?thesis
  proof (cases "reqs s t")
    case None
    with assms Handler show ?thesis by (simp add: handler_def)
  next
    case (Some x)
    have own: "t = r \<Longrightarrow> maxAge_truthy (opts x) \<and> \<not> registered x"
      using unregistered_own [OF assms] Some by simp
    show ?thesis
      unfolding Handler step.simps handler_def Some option.case
      by (cases f) (simp_all add: Let_def assms put_keeps on_finish_keeps own)
  qed
next
  case (Return t e)
  with assms show ?thesis
    by (auto simp: returned_def unregistered_def split: option.splits pc.splits)
next
  case (SetDone t)
  show ?thesis
  proof (cases "reqs s t")
    case None
    with assms SetDone show ?thesis by (simp add: set_done_def)
  next
    case (Some x)
    have own: "t = r \<Longrightarrow> maxAge_truthy (opts x) \<and> \<not> registered x"
      using unregistered_own [OF assms] Some by simp
    show ?thesis
      unfolding SetDone step.simps set_done_def Some option.case
      by (simp add: assms put_keeps emit_finish_keeps own)
  qed
next
  case (Close t)
  with assms show ?thesis
    by (auto simp: closed_def unregistered_def Let_def split: option.splits)
next
  case (Replayed t out)
  with assms show ?thesis
    by (auto simp: replayed_def unregistered_def Let_def split: option.splits)
qed

lemma unregistered_run: "unregistered r s \<Longrightarrow> unregistered r (run evs s)"
  by (induction evs rule: rev_induct) (simp_all add: run_def unregistered_step)

lemma on_finish_unregistered:
  "unregistered r s \<Longrightarrow> PendingRequest (on_finish r s) = PendingRequest s"
  by (auto simp: on_finish_def emit_finish_unregistered split: option.splits)

lemma unregistered_leaves_registry:
  assumes "unregistered r s" "actor ev = Some r"
  shows "PendingRequest (step ev s) = PendingRequest s"
proof (cases ev)
  case (Handler t f)
  with assms(2) have t: "t = r" by simp
  show ?thesis
  proof (cases "reqs s r")
    case None
    then show ?thesis by (simp add: Handler t handler_def)
  next
    case (Some x)
    from unregistered_own [OF assms(1) Some]
    have own: "maxAge_truthy (opts x)" "\<not> registered x" by simp_all
    have keep: "\<And>y. maxAge_truthy (opts y) \<and> \<not> registered y \<Longrightarrow>
        PendingRequest (on_finish r (put r y s)) = PendingRequest s"
      using on_finish_unregistered [OF put_keeps [OF assms(1)]] by simp
    show ?thesis
      unfolding Handler t step.simps handler_def Some option.case
      by (cases f) (simp_all add: Let_def keep own)
  qed
next
  case (SetDone t)
  with assms(2) have t: "t = r" by simp
  show ?thesis
  proof (cases "reqs s r")
    case None
    then show ?thesis by (simp add: SetDone t set_done_def)
  next
    case (Some x)
    from unregistered_own [OF assms(1) Some]
    have own: "maxAge_truthy (opts x)" "\<not> registered x" by simp_all
    have "emit_finish r (put r (x\<lparr>setting := False\<rparr>) s) = put r (x\<lparr>setting := False\<rparr>) s"
      by (rule emit_finish_unregistered) (simp add: put_keeps assms(1) own)
    then show ?thesis by (simp add: SetDone t set_done_def Some)
  qed
next
  case (CacheGot t a)
  with assms show ?thesis
    by (auto simp: cache_got_def start_origin_def unregistered_def Let_def
          split: option.splits pc.splits)
qed (use assms in \<open>auto simp: settled_def returned_def closed_def replayed_def Let_def
        split: option.splits pc.splits\<close>)

lemma arrive_unregistered:
  assumes "matches ''server'' (cache_control q)"
    "max_age_match (cache_control q) = Some ds" "parseInt ds \<noteq> 0"
  shows "unregistered (nreq s) (arrive q r0 s)"
  using assms by (simp add: unregistered_def arrive_def Let_def derive_opts_def maxAge_truthy_def)

text \<open>
  Claim C10, as stated: a request whose \<^verbatim>\<open>cache-control\<close> carries \<^verbatim>\<open>server\<close> and
  \<^verbatim>\<open>max-age=<n>\<close> creates no registration.  With \<^verbatim>\<open>server; max-age=0;\<close> the derived
  \<^verbatim>\<open>opts.maxAgeSeconds\<close> is 0, the test of line 257 succeeds and the request registers.
\<close>

theorem C10_counterexample:
  "matches ''server'' (cache_control override_0)
   \<and> max_age_match (cache_control override_0) = Some ''0''
   \<and> PendingRequest (init 60) (cache_key override_0) = None
   \<and> PendingRequest (run override_0_miss (init 60)) (cache_key override_0) = Some 0"
  by code_simp

text \<open>
  Claim C10, amended.  A GET request whose \<^verbatim>\<open>cache-control\<close> header carries a
  \<^verbatim>\<open>server\<close> token and a \<^verbatim>\<open>max-age=<n>\<close> directive with n at least 1 leaves the registry
  of pending origin calls unchanged: its arrival does, and so does every later step of
  the request, whatever else happens in between.
\<close>

theorem C10_override_leaves_registry:
  assumes "method q = ''GET''" "matches ''server'' (cache_control q)"
    "max_age_match (cache_control q) = Some ds" "parseInt ds \<noteq> 0"
  shows "PendingRequest (step (Arrive q r0) s) = PendingRequest s
       \<and> (\<forall>evs ev. actor ev = Some (nreq s) \<longrightarrow>
            PendingRequest (step ev (run evs (step (Arrive q r0) s)))
              = PendingRequest (run evs (step (Arrive q r0) s)))"
proof (intro conjI allI impI)
  show "PendingRequest (step (Arrive q r0) s) = PendingRequest s"
    by (simp add: arrive_def Let_def)
next
  fix evs ev assume "actor ev = Some (nreq s)"
  moreover have "unregistered (nreq s) (run evs (step (Arrive q r0) s))"
    using arrive_unregistered [OF assms(2-4)] by (simp add: unregistered_run)
  ultimately show "PendingRequest (step ev (run evs (step (Arrive q r0) s)))
              = PendingRequest (run evs (step (Arrive q r0) s))"
    by (rule unregistered_leaves_registry [rotated])
qed

theorem C10_override_leaves_registry_witness:
  "method override_30 = ''GET'' \<and> matches ''server'' (cache_control override_30)
   \<and> max_age_match (cache_control override_30) = Some ''30''
   \<and> pc_of (run override_30_miss (step (Arrive override_30 (fresh_response True)) (init 60))) 0
       = Some Returned
   \<and> PendingRequest
        (step (Handler 0 (End (Some ''hello'')))
           (run override_30_miss (step (Arrive override_30 (fresh_response True)) (init 60))))
       = PendingRequest
           (run override_30_miss (step (Arrive override_30 (fresh_response True)) (init 60)))"
proof -
  have h: "method override_30 = ''GET''" "matches ''server'' (cache_control override_30)"
    "max_age_match (cache_control override_30) = Some ''30''" "parseInt ''30'' \<noteq> 0"
    by code_simp+
  have ran: "pc_of (run override_30_miss (step (Arrive override_30 (fresh_response True)) (init 60))) 0
       = Some Returned"
    by code_simp
  have a: "actor (Handler 0 (End (Some ''hello''))) = Some (nreq (init 60))"
    by (simp add: init_def)
  from C10_override_leaves_registry [OF h, of "fresh_response True" "init 60"] a
  have "PendingRequest
        (step (Handler 0 (End (Some ''hello'')))
           (run override_30_miss (step (Arrive override_30 (fresh_response True)) (init 60))))
       = PendingRequest
           (run override_30_miss (step (Arrive override_30 (fresh_response True)) (init 60)))"
    by blast
  with h ran show ?thesis by blast
qed

section \<open>The implicit header sent by end\<close>

text \<open>
  When \<^verbatim>\<open>_end\<close> sends the implicit header, nothing has been written to the response
  before, so nothing has been captured before this call of \<^verbatim>\<open>end\<close>; the patched
  \<^verbatim>\<open>writeHead\<close> that the header goes through then leaves the captured values as lines
  239-245 have set them.
\<close>

lemma content_names:
  "toLowerCase ''content-type'' = ''content-type''"
  "toLowerCase ''content-length'' = ''content-length''"
  "toLowerCase ''content-encoding'' = ''content-encoding''"
  by code_simp+

lemma truthy_or_idem: "truthy_or v (truthy_or v []) = truthy_or v []"
  by (simp add: truthy_or_def split: option.splits)

lemma end_header_keeps_capture:
  "fst (patched_writeHead (statusCode r) Undefined None
          (fst (patched_end d (empty_capture, r)), r))
     = fst (patched_end d (empty_capture, r))"
  by (cases d)
     (simp_all add: patched_writeHead_def patched_end_def empty_capture_def Let_def
        getHeader_def content_names truthy_or_idem)

lemma nothing_captured_init: "nothing_captured (init ttl)"
  by (simp add: nothing_captured_def init_def)

lemma wire_grows:
  "\<not> recache r \<Longrightarrow> writable r \<Longrightarrow> wire (snd (patched_writeHead st m h (c, r))) \<noteq> []"
  "\<not> recache r \<Longrightarrow> writable r \<Longrightarrow> wire (snd (patched_write chunk (c, r))) \<noteq> []"
  "\<not> recache r \<Longrightarrow> writable r \<Longrightarrow> wire (snd (patched_end d (c, r))) \<noteq> []"
  by (simp_all add: patched_writeHead_def patched_write_def patched_end_def original_write_def
        original_end_def original_writeHead_def this_writable_def Let_def)

lemma patched_keeps_kind:
  "recache (snd (patched_writeHead st m h (c, r))) = recache r"
  "writable (snd (patched_writeHead st m h (c, r))) = writable r"
  "recache (snd (patched_write chunk (c, r))) = recache r"
  "writable (snd (patched_write chunk (c, r))) = writable r"
  "recache (snd (patched_end d (c, r))) = recache r"
  "writable (snd (patched_end d (c, r))) = writable r"
  by (simp_all add: patched_writeHead_def patched_write_def patched_end_def original_write_def
        original_end_def original_writeHead_def this_writable_def Let_def)

lemma setHeader_kind:
  "recache (setHeader n v r) = recache r" "writable (setHeader n v r) = writable r"
  "wire (setHeader n v r) = wire r"
  by (simp_all add: setHeader_def)

lemma nothing_captured_put:
  assumes "nothing_captured s"
    "\<not> recache (res y) \<and> writable (res y) \<and> wire (res y) = [] \<longrightarrow> cap y = empty_capture"
  shows "nothing_captured (put r y s)"
  using assms by (auto simp: nothing_captured_def put_def)

lemma nothing_captured_same:
  assumes "nothing_captured s"
    "\<And>t. map_option (\<lambda>y. (cap y, res y)) (reqs s' t) = map_option (\<lambda>y. (cap y, res y)) (reqs s t)"
  shows "nothing_captured s'"
  unfolding nothing_captured_def
proof (intro allI impI, elim conjE)
  fix r x assume x: "reqs s' r = Some x" and k: "\<not> recache (res x)" "writable (res x)" "wire (res x) = []"
  from assms(2) [of r] x obtain x0 where "reqs s r = Some x0" "cap x0 = cap x" "res x0 = res x"
    by (cases "reqs s r") auto
  with assms(1) k show "cap x = empty_capture" by (auto simp: nothing_captured_def)
qed

lemma emit_finish_same:
  "map_option (\<lambda>y. (cap y, res y)) (reqs (emit_finish r s) t)
     = map_option (\<lambda>y. (cap y, res y)) (reqs s t)"
  by (simp add: emit_finish_def put_def split: option.splits)

lemma on_finish_same:
  "map_option (\<lambda>y. (cap y, res y)) (reqs (on_finish r s) t)
     = map_option (\<lambda>y. (cap y, res y)) (reqs s t)"
  by (simp add: on_finish_def put_def emit_finish_same split: option.splits)

lemma nothing_captured_handler:
  assumes inv: "nothing_captured s" shows "nothing_captured (handler r f s)"
proof (cases "reqs s r")
  case None then show ?thesis using inv by (simp add: handler_def)
next
  case (Some x)
  from inv Some have cx: "\<not> recache (res x) \<and> writable (res x) \<and> wire (res x) = []
      \<longrightarrow> cap x = empty_capture"
    by (auto simp: nothing_captured_def)
  show ?thesis
  proof (cases "patched (pc x)")
    case False then show ?thesis using inv Some by (simp add: handler_def)
  next
    case True
    show ?thesis
    proof (cases f)
      case (End d)
      let ?cr = "patched_end d (cap x, res x)"
      let ?x1 = "x\<lparr>cap := fst ?cr, res := snd ?cr\<rparr>"
      have k: "\<not> recache (res ?x1) \<and> writable (res ?x1) \<and> wire (res ?x1) = []
               \<longrightarrow> cap ?x1 = empty_capture"
        using wire_grows(3) [of "res x" d "cap x"] by (auto simp: patched_keeps_kind)
      have k': "\<not> recache (res (?x1\<lparr>responded := True\<rparr>)) \<and> writable (res (?x1\<lparr>responded := True\<rparr>))
               \<and> wire (res (?x1\<lparr>responded := True\<rparr>)) = []
               \<longrightarrow> cap (?x1\<lparr>responded := True\<rparr>) = empty_capture"
        using k by simp
      have a: "nothing_captured (put r ?x1 s)" by (rule nothing_captured_put [OF inv k])
      have b: "nothing_captured (on_finish r (put r (?x1\<lparr>responded := True\<rparr>) s))"
        by (rule nothing_captured_same [OF nothing_captured_put [OF inv k']]) (rule on_finish_same)
      show ?thesis
        using Some True a b by (simp add: End handler_def Let_def)
    next
      case (WriteHead st m h)
      let ?cr = "patched_writeHead st m h (cap x, res x)"
      let ?x1 = "x\<lparr>cap := fst ?cr, res := snd ?cr\<rparr>"
      have k: "\<not> recache (res ?x1) \<and> writable (res ?x1) \<and> wire (res ?x1) = []
               \<longrightarrow> cap ?x1 = empty_capture"
        using wire_grows(1) [of "res x" st m h "cap x"] by (auto simp: patched_keeps_kind)
      show ?thesis
        using Some True nothing_captured_put [OF inv k]
        by (simp add: WriteHead handler_def Let_def)
    next
      case (Write c)
      let ?cr = "patched_write c (cap x, res x)"
      let ?x1 = "x\<lparr>cap := fst ?cr, res := snd ?cr\<rparr>"
      have k: "\<not> recache (res ?x1) \<and> writable (res ?x1) \<and> wire (res ?x1) = []
               \<longrightarrow> cap ?x1 = empty_capture"
        using wire_grows(2) [of "res x" c "cap x"] by (auto simp: patched_keeps_kind)
      show ?thesis
        using Some True nothing_captured_put [OF inv k]
        by (simp add: Write handler_def Let_def)
    next
      case (SetStatusCode n)
      show ?thesis
        using Some True cx
        by (simp add: SetStatusCode handler_def nothing_captured_put [OF inv])
    next
      case (SetStatusMessage m)
      show ?thesis
        using Some True cx
        by (simp add: SetStatusMessage handler_def nothing_captured_put [OF inv])
    next
      case (SetHeader n v)
      show ?thesis
        using Some True cx
        by (simp add: SetHeader handler_def nothing_captured_put [OF inv] setHeader_kind)
    next
      case (SetAge n)
      show ?thesis
        using Some True cx by (simp add: SetAge handler_def nothing_captured_put [OF inv])
    next
      case (SetMaxage n)
      show ?thesis
        using Some True cx by (simp add: SetMaxage handler_def nothing_captured_put [OF inv])
    qed
  qed
qed

lemma nothing_captured_cache_got:
  assumes inv: "nothing_captured s" shows "nothing_captured (cache_got r a s)"
proof (cases "reqs s r")
  case None then show ?thesis using inv by (simp add: cache_got_def)
next
  case (Some x)
  from inv Some have cx: "\<not> recache (res x) \<and> writable (res x) \<and> wire (res x) = []
      \<longrightarrow> cap x = empty_capture"
    by (auto simp: nothing_captured_def)
  have hit: "wire (respond_hit sc k now e r0) \<noteq> []" for sc k now e r0
    by (simp add: respond_hit_def Let_def)
  have sch: "nothing_captured s' \<Longrightarrow> nothing_captured (schedule_recache r k e s')" for s' k e
    by (simp add: nothing_captured_def)
  have inv': "nothing_captured (s\<lparr>PendingRequest := P\<rparr>)" for P
    using inv by (simp add: nothing_captured_def)
  have so: "nothing_captured (start_origin r x s)"
    unfolding start_origin_def Let_def
    by (simp add: nothing_captured_put [OF inv] nothing_captured_put [OF inv'])
  show ?thesis
  proof (cases "pc x")
    case (AwaitGet waited)
    show ?thesis
    proof (cases "store_get (opts x) a (store s) (key x)")
      case None
      with Some AwaitGet so show ?thesis by (simp add: cache_got_def)
    next
      case (Some e)
      have f: "nothing_captured (put r (x\<lparr>pc := Failed ''ERR_HTTP_HEADERS_SENT''\<rparr>) s)"
        using cx by (intro nothing_captured_put [OF inv]) simp
      have h: "nothing_captured
                 (put r (x\<lparr>res := respond_hit (scope x) (key x) (clock s) e (res x),
                           pc := Served\<rparr>) s)"
        using hit by (intro nothing_captured_put [OF inv]) simp
      from \<open>reqs s r = Some x\<close> AwaitGet Some f h sch show ?thesis
        by (simp add: cache_got_def Let_def)
    qed
  qed (use Some inv in \<open>simp_all add: cache_got_def\<close>)
qed

lemma nothing_captured_returned:
  assumes inv: "nothing_captured s" shows "nothing_captured (returned r err s)"
proof (cases "reqs s r")
  case None then show ?thesis using inv by (simp add: returned_def)
next
  case (Some x)
  from inv Some have cx: "\<not> recache (res x) \<and> writable (res x) \<and> wire (res x) = []
      \<longrightarrow> cap x = empty_capture"
    by (auto simp: nothing_captured_def)
  show ?thesis
  proof (cases "pc x")
    case Running
    have "nothing_captured (put r (x\<lparr>res := finally_headers x, armed := True,
                        pc := (case err of None \<Rightarrow> Returned | Some e \<Rightarrow> Threw e)\<rparr>) s)"
      using cx by (intro nothing_captured_put [OF inv]) (simp add: finally_headers_def setHeader_kind)
    with Some Running show ?thesis by (simp add: returned_def)
  qed (use Some inv in \<open>simp_all add: returned_def\<close>)
qed

lemma nothing_captured_step:
  assumes inv: "nothing_captured s" shows "nothing_captured (step ev s)"
proof (cases ev)
  case (Handler r f)
  show ?thesis unfolding Handler using nothing_captured_handler [OF inv] by simp
next
  case (CacheGot r a)
  show ?thesis unfolding CacheGot using nothing_captured_cache_got [OF inv] by simp
next
  case (Return r err)
  show ?thesis unfolding Return using nothing_captured_returned [OF inv] by simp
next
  case (Settled r)
  show ?thesis unfolding Settled
    by (rule nothing_captured_same [OF inv])
       (simp add: settled_def put_def split: option.splits pc.splits)
next
  case (SetDone r)
  show ?thesis unfolding SetDone
    by (rule nothing_captured_same [OF inv])
       (simp add: set_done_def put_def emit_finish_same split: option.splits)
next
  case (Close r)
  show ?thesis unfolding Close
    by (rule nothing_captured_same [OF inv])
       (simp add: closed_def put_def Let_def split: option.splits)
next
  case (Replayed r out)
  show ?thesis unfolding Replayed
    by (rule nothing_captured_same [OF inv])
       (simp add: replayed_def Let_def split: option.splits)
next
  case (Arrive q r0)
  show ?thesis
    using inv by (auto simp: Arrive arrive_def nothing_captured_def Let_def)
next
  case (Tick t)
  show ?thesis using inv by (simp add: Tick nothing_captured_def)
qed

lemma nothing_sent_nothing_captured: "nothing_captured (run evs (init ttl))"
proof (induction evs rule: rev_induct)
  case Nil
  show ?case by (simp add: run_def nothing_captured_init)
next
  case (snoc ev evs)
  then show ?case by (simp add: run_snoc nothing_captured_step)
qed

lemma implicit_header_of_end:
  assumes "reqs (run evs (init ttl)) r = Some x"
    "\<not> recache (res x)" "writable (res x)" "wire (res x) = []"
  shows "fst (patched_writeHead (statusCode (res x)) Undefined None
                (fst (patched_end d (cap x, res x)), res x))
           = fst (patched_end d (cap x, res x))"
proof -
  from nothing_sent_nothing_captured [of evs ttl] assms have "cap x = empty_capture"
    by (auto simp: nothing_captured_def)
  then show ?thesis by (simp add: end_header_keeps_capture)
qed

section \<open>Write-through on an origin miss\<close>

lemma store_written_only_on_end:
  "store (step ev s) \<noteq> store s \<Longrightarrow> \<exists>r d. ev = Handler r (End d)"
proof (cases ev)
  case (Handler r f)
  assume "store (step ev s) \<noteq> store s"
  then show ?thesis
    unfolding Handler
    by (cases f) (auto simp: handler_def Let_def split: option.splits if_splits)
qed (auto simp: settled_def cache_got_def returned_def set_done_def closed_def replayed_def
       arrive_def Let_def split: option.splits pc.splits if_splits)

text \<open>
  Claim C3, as stated: every origin miss whose final status is at least 200 and below
  500 is persisted.  In the schedule \<open>early_end\<close> the handler ends the response itself,
  with status 200, before it returns: the first \<^verbatim>\<open>onFinish\<close> is still in place and no
  entry is written.  In \<open>no_store_miss\<close> the response ends after the handler has
  returned, with status 200, for a request whose directives disable writes, and the
  store holds no entry either.
\<close>

theorem C3_counterexample:
  "(pc_of (run early_end (init 100)) 0 = Some Returned
     \<and> final_status_of (run early_end (init 100)) 0 = Some 200
     \<and> wire_of (run early_end (init 100)) 0
         = [W_writeHead 200 None (Obj []), W_end (Some ''hello'')]
     \<and> key_at (run early_end (init 100)) 0 = Some items_key
     \<and> stored_head (run early_end (init 100)) items_key = None)
   \<and> (pc_of (run no_store_miss (init 100)) 0 = Some Returned
     \<and> final_status_of (run no_store_miss (init 100)) 0 = Some 200
     \<and> wire_of (run no_store_miss (init 100)) 0
         = [W_writeHead 200 None (Obj []), W_end (Some ''hello'')]
     \<and> key_at (run no_store_miss (init 100)) 0 = Some items_key
     \<and> stored_head (run no_store_miss (init 100)) items_key = None)"
  by code_simp

text \<open>
  Claim C3, amended.  When the response of an origin miss ends, an entry is written
  under the key of the request exactly when it ends for the first time, the handler
  chain has settled by then (the \<^verbatim>\<open>finally\<close> of line 281 has run), the directives of
  the request do not disable writes, and the final status is at least 200 and below
  500.  The final status is the one given to \<^verbatim>\<open>writeHead\<close>, be it by the handler or by
  the first \<^verbatim>\<open>write\<close>, which sends the header with the status code of that moment;
  without such a call it is the status code at the end.  The store then holds, under
  that key, an entry with ttl \<open>maxage - age\<close>, \<open>iat\<close> the current second minus \<open>age\<close>
  and \<open>exp = iat + maxage\<close>, carrying the final status and the captured body, where
  \<open>age\<close> and \<open>maxage\<close> are those of the cache context, which downstream code can
  set.  In every other case the store is unchanged: in particular for a status of 500
  or more, and for a response that ends while the handler is still running, whatever
  its status.  No other step of the middleware writes to the store.
\<close>

theorem C3_write_through:
  assumes "reqs s r = Some x" "patched (pc x)"
  shows "(\<not> responded x \<and> armed x \<and> \<not> noStore (opts x)
            \<and> 200 \<le> (if finalStatus (cap x) \<noteq> 0 then finalStatus (cap x) else statusCode (res x))
            \<and> (if finalStatus (cap x) \<noteq> 0 then finalStatus (cap x) else statusCode (res x)) < 500
          \<longrightarrow> (\<exists>e. store (step (Handler r (End d)) s) = (store s)(key x \<mapsto> (e, maxage x - age x))
                 \<and> iat (head e) = clock s div 1000 - age x
                 \<and> exp (head e) = iat (head e) + maxage x
                 \<and> status (head e)
                     = (if finalStatus (cap x) \<noteq> 0 then finalStatus (cap x) else statusCode (res x))
                 \<and> body e = concat (chunks (cap x) @ (case d of None \<Rightarrow> [] | Some c \<Rightarrow> [c]))))
       \<and> (\<not> (\<not> responded x \<and> armed x \<and> \<not> noStore (opts x)
              \<and> 200 \<le> (if finalStatus (cap x) \<noteq> 0 then finalStatus (cap x) else statusCode (res x))
              \<and> (if finalStatus (cap x) \<noteq> 0 then finalStatus (cap x) else statusCode (res x)) < 500)
          \<longrightarrow> store (step (Handler r (End d)) s) = store s)
       \<and> final_status_of (step (Handler r (End d)) s) r
           = Some (if finalStatus (cap x) \<noteq> 0 then finalStatus (cap x) else statusCode (res x))
       \<and> (\<forall>st m h. map_option (\<lambda>y. finalStatus (cap y))
                      (reqs (step (Handler r (WriteHead st m h)) s) r) = Some st)
       \<and> (\<forall>c. \<not> recache (res x) \<and> writable (res x) \<and> wire (res x) = [] \<longrightarrow>
              map_option (\<lambda>y. finalStatus (cap y)) (reqs (step (Handler r (Write c)) s) r)
                = Some (statusCode (res x)))
       \<and> (\<forall>err. pc x = Running \<longrightarrow>
             map_option armed (reqs (step (Return r err) s) r) = Some True)
       \<and> (\<forall>n. map_option age (reqs (step (Handler r (SetAge n)) s) r) = Some n)
       \<and> (\<forall>n. map_option maxage (reqs (step (Handler r (SetMaxage n)) s) r) = Some n)
       \<and> (\<forall>ev. store (step ev s) \<noteq> store s \<longrightarrow> (\<exists>r' d'. ev = Handler r' (End d')))"
proof -
  let ?fs = "if finalStatus (cap x) \<noteq> 0 then finalStatus (cap x) else statusCode (res x)"
  have pe: "finalStatus (fst (patched_end d (cap x, res x))) = ?fs"
    "chunks (fst (patched_end d (cap x, res x)))
       = chunks (cap x) @ (case d of None \<Rightarrow> [] | Some c \<Rightarrow> [c])"
    by (auto simp: patched_end_def Let_def split: option.splits)
  have only: "\<forall>ev. store (step ev s) \<noteq> store s \<longrightarrow> (\<exists>r' d'. ev = Handler r' (End d'))"
    using store_written_only_on_end by blast
  have fin: "final_status_of (step (Handler r (End d)) s) r = Some ?fs"
    using assms pe(1)
    by (auto simp: handler_def on_finish_def emit_finish_def final_status_of_def Let_def)
  have wh: "\<forall>st m h. map_option (\<lambda>y. finalStatus (cap y))
                      (reqs (step (Handler r (WriteHead st m h)) s) r) = Some st"
    using assms by (auto simp: handler_def patched_writeHead_def Let_def put_def split: arg.splits)
  have fw: "\<forall>c. \<not> recache (res x) \<and> writable (res x) \<and> wire (res x) = [] \<longrightarrow>
              map_option (\<lambda>y. finalStatus (cap y)) (reqs (step (Handler r (Write c)) s) r)
                = Some (statusCode (res x))"
    using assms
    by (auto simp: handler_def patched_write_def original_write_def patched_writeHead_def
          this_writable_def Let_def put_def)
  have arm: "\<forall>err. pc x = Running \<longrightarrow>
             map_option armed (reqs (step (Return r err) s) r) = Some True"
    using assms by (auto simp: returned_def put_def)
  have ctx: "\<forall>n. map_option age (reqs (step (Handler r (SetAge n)) s) r) = Some n"
    "\<forall>n. map_option maxage (reqs (step (Handler r (SetMaxage n)) s) r) = Some n"
    using assms by (simp_all add: handler_def put_def)
  have wr: "\<not> responded x \<and> armed x \<and> \<not> noStore (opts x) \<and> 200 \<le> ?fs \<and> ?fs < 500
          \<longrightarrow> (\<exists>e. store (step (Handler r (End d)) s) = (store s)(key x \<mapsto> (e, maxage x - age x))
                 \<and> iat (head e) = clock s div 1000 - age x
                 \<and> exp (head e) = iat (head e) + maxage x
                 \<and> status (head e) = ?fs
                 \<and> body e = concat (chunks (cap x) @ (case d of None \<Rightarrow> [] | Some c \<Rightarrow> [c])))"
  proof
    assume a: "\<not> responded x \<and> armed x \<and> \<not> noStore (opts x) \<and> 200 \<le> ?fs \<and> ?fs < 500"
    let ?x1 = "x\<lparr>cap := fst (patched_end d (cap x, res x)),
                  res := snd (patched_end d (cap x, res x)), responded := True\<rparr>"
    from assms a pe(1)
    have "store (step (Handler r (End d)) s)
            = (store s)(key x \<mapsto> write_through (clock s) ?x1)"
      by (simp add: handler_def on_finish_def Let_def put_def)
    moreover have "snd (write_through (clock s) ?x1) = maxage x - age x"
      "iat (head (fst (write_through (clock s) ?x1))) = clock s div 1000 - age x"
      "exp (head (fst (write_through (clock s) ?x1)))
         = iat (head (fst (write_through (clock s) ?x1))) + maxage x"
      "status (head (fst (write_through (clock s) ?x1))) = ?fs"
      "body (fst (write_through (clock s) ?x1))
         = concat (chunks (cap x) @ (case d of None \<Rightarrow> [] | Some c \<Rightarrow> [c]))"
      using pe by (simp_all add: write_through_def Let_def)
    ultimately show "\<exists>e. store (step (Handler r (End d)) s)
                        = (store s)(key x \<mapsto> (e, maxage x - age x))
                 \<and> iat (head e) = clock s div 1000 - age x
                 \<and> exp (head e) = iat (head e) + maxage x
                 \<and> status (head e) = ?fs
                 \<and> body e = concat (chunks (cap x) @ (case d of None \<Rightarrow> [] | Some c \<Rightarrow> [c]))"
      by (metis prod.collapse)
  qed
  have nw: "\<not> (\<not> responded x \<and> armed x \<and> \<not> noStore (opts x) \<and> 200 \<le> ?fs \<and> ?fs < 500)
          \<longrightarrow> store (step (Handler r (End d)) s) = store s"
    using assms pe(1) by (auto simp: handler_def on_finish_def Let_def)
  from wr nw fin wh fw arm ctx only show ?thesis by blast
qed

theorem C3_write_through_witness:
  "stored_head (run miss_200 (init 100)) items_key = None
   \<and> stored_head (step (Handler 0 (End (Some ''hello''))) (run miss_200 (init 100))) items_key
       = Some \<lparr>iat = 1000, exp = 1100, status = 200, message = [], type_h = [],
               length_h = ''5'', encoding = []\<rparr>
   \<and> stored_ttl (step (Handler 0 (End (Some ''hello''))) (run miss_200 (init 100))) items_key
       = Some 100
   \<and> (\<exists>e. store (step (Handler 0 (End (Some ''hello''))) (run miss_200 (init 100))) items_key
             = Some (e, 100)
          \<and> iat (head e) = 1000 \<and> exp (head e) = 1100 \<and> status (head e) = 200
          \<and> body e = ''hello'')
   \<and> store (step (Handler 0 (End None)) (run miss_503 (init 100)))
       = store (run miss_503 (init 100))"
proof -
  let ?s = "run miss_200 (init 100)"
  let ?d = "Some ''hello''"
  have before: "stored_head ?s items_key = None" by code_simp
  have after: "stored_head (step (Handler 0 (End ?d)) ?s) items_key
       = Some \<lparr>iat = 1000, exp = 1100, status = 200, message = [], type_h = [],
               length_h = ''5'', encoding = []\<rparr>"
    "stored_ttl (step (Handler 0 (End ?d)) ?s) items_key = Some 100"
    by code_simp+
  have "map_option (\<lambda>y. (patched (pc y), armed y, responded y, noStore (opts y), key y,
                          maxage y, age y, finalStatus (cap y), statusCode (res y),
                          chunks (cap y)))
          (reqs ?s 0) = Some (True, True, False, False, items_key, 100, 0, 0, 200, [])"
    by code_simp
  then obtain x where x: "reqs ?s 0 = Some x" and f: "patched (pc x)" "\<not> responded x"
    and g: "armed x" "\<not> noStore (opts x)"
    and v: "key x = items_key" "maxage x = 100" "age x = 0"
    and c: "finalStatus (cap x) = 0" "statusCode (res x) = 200" "chunks (cap x) = []"
    by auto
  have cl: "clock ?s = 1000000" by code_simp
  from C3_write_through [OF x f(1), of ?d, THEN conjunct1] f(2) g c
  obtain e where e: "store (step (Handler 0 (End ?d)) ?s) = (store ?s)(key x \<mapsto> (e, maxage x - age x))"
    "iat (head e) = clock ?s div 1000 - age x" "exp (head e) = iat (head e) + maxage x"
    "status (head e) = 200" "body e = ''hello''"
    by auto
  then have "store (step (Handler 0 (End ?d)) ?s) items_key = Some (e, 100)
      \<and> iat (head e) = 1000 \<and> exp (head e) = 1100 \<and> status (head e) = 200
      \<and> body e = ''hello''"
    by (simp add: v cl)
  then have ex: "\<exists>e. store (step (Handler 0 (End ?d)) ?s) items_key = Some (e, 100)
      \<and> iat (head e) = 1000 \<and> exp (head e) = 1100 \<and> status (head e) = 200
      \<and> body e = ''hello''"
    by blast
  let ?t = "run miss_503 (init 100)"
  have "map_option (\<lambda>y. (patched (pc y), responded y, armed y)) (reqs ?t 0)
          = Some (True, False, False)"
    by code_simp
  then obtain y where y: "reqs ?t 0 = Some y" and fy: "patched (pc y)" "\<not> responded y"
    and gy: "\<not> armed y"
    by auto
  from C3_write_through [OF y fy(1), of None, THEN conjunct2, THEN conjunct1] gy
  have un: "store (step (Handler 0 (End None)) ?t) = store ?t" by blast
  from before after ex un show ?thesis by blast
qed

lemma lower_names:
  "toLowerCase ''x-cache'' = ''x-cache''" "toLowerCase ''age'' = ''age''"
  "toLowerCase ''cache-control'' = ''cache-control''"
  by code_simp+

lemma finally_headers_set:
  assumes "\<not> headersSent (res x)"
  shows "headers (finally_headers x) ''x-cache'' = Some ''miss''"
    "headers (finally_headers x) ''age'' = Some (toString (age x))"
    "headers (finally_headers x) ''cache-control''
       = Some (cache_control_value (scope x) (maxage x))"
    "wire (finally_headers x) = wire (res x)" "recache (finally_headers x) = recache (res x)"
  using assms
  by (auto simp: finally_headers_def setHeader_def headersSent_def lower_names)

lemma patched_end_headers [simp]: "headers (snd (patched_end d (c, r))) = headers r"
  by (simp add: patched_end_def original_end_def original_writeHead_def Let_def)

text \<open>
  Claim C9, amended.  For an origin miss whose headers are not yet sent when the
  handler chain settles and whose final status is 503: no entry is written, the response
  carries \<^verbatim>\<open>x-cache: miss\<close>, and it carries an \<^verbatim>\<open>age\<close> header with the age of the cache
  context and a \<^verbatim>\<open>cache-control\<close> header with its scope and maxage, as on every miss.
\<close>

theorem C9_failed_miss:
  assumes "reqs s r = Some x" "pc x = Running" "\<not> headersSent (res x)"
    "final_status_of (step (Handler r (End d)) (step (Return r err) s)) r = Some 503"
  shows "store (step (Handler r (End d)) (step (Return r err) s)) = store s
       \<and> header_of (step (Handler r (End d)) (step (Return r err) s)) r ''x-cache''
           = Some ''miss''
       \<and> header_of (step (Handler r (End d)) (step (Return r err) s)) r ''age''
           = Some (toString (age x))
       \<and> header_of (step (Handler r (End d)) (step (Return r err) s)) r ''cache-control''
           = Some (cache_control_value (scope x) (maxage x))"
proof -
  let ?y = "x\<lparr>res := finally_headers x, armed := True,
               pc := (case err of None \<Rightarrow> Returned | Some e \<Rightarrow> Threw e)\<rparr>"
  have ret: "step (Return r err) s = put r ?y s"
    using assms(1,2) by (simp add: returned_def)
  have pat: "patched (pc ?y)" by (simp add: patched_def split: option.splits)
  let ?cr = "patched_end d (cap x, finally_headers x)"
  let ?z = "?y\<lparr>cap := fst ?cr, res := snd ?cr\<rparr>"
  have fin: "step (Handler r (End d)) (step (Return r err) s)
      = (if responded x then put r ?z (put r ?y s)
         else on_finish r (put r (?z\<lparr>responded := True\<rparr>) (put r ?y s)))"
    unfolding ret using pat by (simp add: handler_def Let_def)
  have status: "finalStatus (fst ?cr) = 503"
    using assms(4) unfolding fin
    by (auto simp: final_status_of_def on_finish_def emit_finish_def split: if_splits)
  have hs: "getHeader (snd ?cr) ''x-cache'' = Some ''miss''"
    "getHeader (snd ?cr) ''age'' = Some (toString (age x))"
    "getHeader (snd ?cr) ''cache-control'' = Some (cache_control_value (scope x) (maxage x))"
    using finally_headers_set [OF assms(3)] by (simp_all add: getHeader_def lower_names)
  show ?thesis
    unfolding fin using status hs
    by (auto simp: header_of_def on_finish_def emit_finish_def)
qed

text \<open>
  Claim C9, as stated: the response of a miss ending with status 503 carries
  \<^verbatim>\<open>x-cache: miss\<close> and has no \<^verbatim>\<open>age\<close> header.  Line 283 sets \<^verbatim>\<open>age\<close> whatever the
  status; in the first schedule it reads \<^verbatim>\<open>0\<close>.  In the second the handler has
  written to the response before it settles: the headers are sent, \<^verbatim>\<open>ctx.set\<close> does
  nothing, and the response has no \<^verbatim>\<open>x-cache\<close> header.
\<close>

theorem C9_counterexample:
  "(final_status_of (run (miss_503 @ [Return 0 None, Handler 0 (End (Some ''unavailable''))])
        (init 60)) 0 = Some 503
     \<and> stored_head (run (miss_503 @ [Return 0 None, Handler 0 (End (Some ''unavailable''))])
          (init 60)) items_key = None
     \<and> header_of (run (miss_503 @ [Return 0 None, Handler 0 (End (Some ''unavailable''))])
          (init 60)) 0 ''x-cache'' = Some ''miss''
     \<and> header_of (run (miss_503 @ [Return 0 None, Handler 0 (End (Some ''unavailable''))])
          (init 60)) 0 ''age'' = Some ''0'')
   \<and> (final_status_of (run streamed_503 (init 60)) 0 = Some 503
     \<and> stored_head (run streamed_503 (init 60)) items_key = None
     \<and> header_of (run streamed_503 (init 60)) 0 ''x-cache'' = None)"
  by code_simp

theorem C9_failed_miss_witness:
  "pc_of (run miss_503 (init 60)) 0 = Some Running
   \<and> final_status_of (step (Handler 0 (End (Some ''unavailable'')))
        (step (Return 0 None) (run miss_503 (init 60)))) 0 = Some 503
   \<and> store (step (Handler 0 (End (Some ''unavailable'')))
        (step (Return 0 None) (run miss_503 (init 60)))) = store (run miss_503 (init 60))
   \<and> header_of (step (Handler 0 (End (Some ''unavailable'')))
        (step (Return 0 None) (run miss_503 (init 60)))) 0 ''x-cache'' = Some ''miss''
   \<and> header_of (step (Handler 0 (End (Some ''unavailable'')))
        (step (Return 0 None) (run miss_503 (init 60)))) 0 ''age'' = Some ''0''"
proof -
  let ?s = "run miss_503 (init 60)"
  have pcs: "pc_of ?s 0 = Some Running" by code_simp
  have "map_option (\<lambda>y. (pc y, headersSent (res y), age y)) (reqs ?s 0)
      = Some (Running, False, 0)"
    by code_simp
  then obtain x where x: "reqs ?s 0 = Some x" and p: "pc x = Running"
    and h: "\<not> headersSent (res x)" and a: "age x = 0"
    by auto
  have fs: "final_status_of (step (Handler 0 (End (Some ''unavailable'')))
        (step (Return 0 None) ?s)) 0 = Some 503"
    by code_simp
  have z: "toString 0 = ''0''" by code_simp
  from C9_failed_miss [OF x p h fs] pcs fs show ?thesis by (simp add: a z)
qed

section \<open>The shadow response of a background refresh\<close>

lemma shadow_never_forwards:
  assumes "recache r"
  shows "wire (snd (patched_writeHead st m h (c, r))) = wire r"
    "wire (snd (patched_write chunk (c, r))) = wire r"
    "wire (snd (patched_end d (c, r))) = wire r"
    "recache (snd (patched_writeHead st m h (c, r)))"
    "recache (snd (patched_write chunk (c, r)))"
    "recache (snd (patched_end d (c, r)))"
  using assms by (simp_all add: patched_writeHead_def patched_write_def patched_end_def Let_def)

lemma patched_writeHead_chunks [simp]:
  "chunks (fst (patched_writeHead st m h cr)) = chunks (fst cr)"
  by (simp add: patched_writeHead_def Let_def split: arg.splits)

lemma shadow_records_status_and_body:
  "finalStatus (fst (patched_writeHead st m h (c, r))) = st"
  "chunks (fst (patched_write chunk (c, r))) = chunks c @ [chunk]"
  "chunks (fst (patched_end (Some chunk) (c, r))) = chunks c @ [chunk]"
  by (simp_all add: patched_writeHead_def patched_write_def original_write_def
        patched_end_def Let_def split: arg.splits)

lemma emit_finish_wire [simp]: "wire_of (emit_finish r s) t = wire_of s t"
  by (auto simp: emit_finish_def wire_of_def split: option.splits)

lemma on_finish_wire [simp]: "wire_of (on_finish r s) t = wire_of s t"
  by (auto simp: on_finish_def split: option.splits) (auto simp: wire_of_def)

lemma wire_of_put [simp]: "wire_of (put r x s) t = (if t = r then wire (res x) else wire_of s t)"
  by (simp add: wire_of_def)

text \<open>While a request runs against the proxy, nothing it does reaches the wire.\<close>

lemma shadow_handler_wire:
  assumes "reqs s r = Some x" "recache (res x)"
  shows "wire_of (step (Handler r f) s) r = wire (res x)"
proof (cases "patched (pc x)")
  case False
  with assms show ?thesis by (simp add: handler_def wire_of_def)
next
  case True
  with assms show ?thesis
    by (cases f)
       (simp_all add: handler_def Let_def shadow_never_forwards setHeader_def headersSent_def)
qed

text \<open>
  Claim C5: every status, header and body write against the shadow response is recorded
  and none is forwarded.  Nothing is forwarded (\<open>shadow_never_forwards\<close>), and status
  and body are recorded.  The headers of \<^verbatim>\<open>writeHead(200, headers)\<close> are not: lines
  200-201 clear \<^verbatim>\<open>statusMessage\<close> before copying it to \<^verbatim>\<open>headers\<close>.  In \<open>shadow_refresh\<close>
  the content type sent that way is in neither the proxy's headers nor the entry the
  refresh stores, while the three-argument call of \<open>shadow_refresh_message\<close> records it.
\<close>

theorem C5_shadow_writeHead:
  "wire_of (run shadow_refresh (init 100)) 0 = []
   \<and> final_status_of (run shadow_refresh (init 100)) 0 = Some 200
   \<and> header_of (run shadow_refresh (init 100)) 0 ''content-type'' = None
   \<and> map_option type_h (stored_head (run shadow_refresh (init 100)) items_key) = Some []
   \<and> header_of (run shadow_refresh_message (init 100)) 0 ''content-type'' = Some ''text/html''
   \<and> map_option type_h (stored_head (run shadow_refresh_message (init 100)) items_key)
       = Some ''text/html''"
  by code_simp

theorem C5_shadow_writeHead_witness:
  "header_of (run shadow_refresh (init 100)) 0 ''content-type''
     \<noteq> header_of (run shadow_refresh_message (init 100)) 0 ''content-type''"
  using C5_shadow_writeHead by simp

end
